theory Spec2Isabelle
  imports Main "HOL-Library.Word"
begin

section \<open>JavaScript values used by lib/monitor.js\<close>

text \<open>
  The values the monitor handles: \<open>undefined\<close>, \<open>null\<close>, strings, and the non-negative
  integers below \<open>2^53\<close> (ports, process ids, times). JavaScript holds each of these
  integers exactly and prints it in plain decimal; the exponent form only starts at
  \<open>10^21\<close>. Fractions, negative numbers, \<open>NaN\<close>, the infinities and booleans are not
  values of the model. A string is a list of characters, each a code unit below 256.
\<close>

datatype jsval = JUndefined | JNull | JNum "53 word" | JStr string

text \<open>JavaScript truthiness, as used by \<open>!x\<close>, \<open>x || d\<close> and \<open>if (x)\<close>.\<close>

fun truthy :: "jsval \<Rightarrow> bool" where
  "truthy JUndefined = False"
| "truthy JNull = False"
| "truthy (JNum n) = (n \<noteq> 0)"
| "truthy (JStr s) = (s \<noteq> [])"

definition digit_char :: "nat \<Rightarrow> char" where
  "digit_char d = char_of (48 + d)"

text \<open>Decimal rendering of a non-negative integer, as \<open>'' + n\<close> gives it below \<open>10^21\<close>.\<close>

fun show_nat :: "nat \<Rightarrow> string" where
  "show_nat n = (if n < 10 then [digit_char n] else show_nat (n div 10) @ [digit_char (n mod 10)])"

declare show_nat.simps [simp del]

text \<open>
  The string a value contributes to a string concatenation \<open>s + v\<close>, and the name of the
  property in \<open>obj[v]\<close>.
\<close>

fun to_str :: "jsval \<Rightarrow> string" where
  "to_str JUndefined = ''undefined''"
| "to_str JNull = ''null''"
| "to_str (JNum n) = show_nat (unat n)"
| "to_str (JStr s) = s"

text \<open>
  \<open>v || d\<close> for a field that holds a string or is absent: \<open>None\<close> stands for
  \<open>undefined\<close> and \<open>null\<close>, and the empty string is falsy as well.
\<close>

definition or_else :: "string option \<Rightarrow> string \<Rightarrow> string" where
  "or_else v d = (case v of None \<Rightarrow> d | Some s \<Rightarrow> if s = [] then d else s)"

text \<open>\<open>s.indexOf(c)\<close> and \<open>s.lastIndexOf(c)\<close> for a single character; \<open>None\<close> is -1.\<close>

fun index_of :: "char \<Rightarrow> string \<Rightarrow> nat option" where
  "index_of c [] = None"
| "index_of c (x # xs) =
     (if x = c then Some 0 else (case index_of c xs of None \<Rightarrow> None | Some i \<Rightarrow> Some (Suc i)))"

fun last_index_of :: "char \<Rightarrow> string \<Rightarrow> nat option" where
  "last_index_of c [] = None"
| "last_index_of c (x # xs) =
     (case last_index_of c xs of
        Some i \<Rightarrow> Some (Suc i)
      | None \<Rightarrow> if x = c then Some 0 else None)"

definition lower_char :: "char \<Rightarrow> char" where
  "lower_char c =
     (if 65 \<le> (of_char c :: nat) \<and> (of_char c :: nat) \<le> 90 then char_of (of_char c + 32 :: nat) else c)"

definition lower :: "string \<Rightarrow> string" where
  "lower s = map lower_char s"

definition is_digit :: "char \<Rightarrow> bool" where
  "is_digit c = (48 \<le> (of_char c :: nat) \<and> (of_char c :: nat) \<le> 57)"

definition is_lower :: "char \<Rightarrow> bool" where
  "is_lower c = (97 \<le> (of_char c :: nat) \<and> (of_char c :: nat) \<le> 122)"

definition is_upper :: "char \<Rightarrow> bool" where
  "is_upper c = (65 \<le> (of_char c :: nat) \<and> (of_char c :: nat) \<le> 90)"

text \<open>The number a string of decimal digits stands for.\<close>

definition read_nat :: "string \<Rightarrow> nat" where
  "read_nat s = foldl (\<lambda>n c. 10 * n + ((of_char c :: nat) - 48)) 0 s"

subsection \<open>isNaN\<close>

text \<open>
  \<open>isNaN(v)\<close> converts \<open>v\<close> to a number first. \<open>undefined\<close> converts to \<open>NaN\<close>,
  \<open>null\<close> to 0. A string converts as the grammar of numeric strings says: blanks and
  line ends around it are dropped; what is left is empty (the number 0), or a
  hexadecimal, binary or octal literal (\<open>0x\<close>, \<open>0b\<close>, \<open>0o\<close> and digits; the last two
  since ECMAScript 2015), or an optional sign followed by \<open>Infinity\<close> or by a decimal
  literal: digits with an optional fraction, or a fraction alone, and an optional
  exponent. Every other string converts to \<open>NaN\<close>.
\<close>

definition is_space :: "char \<Rightarrow> bool" where
  "is_space c = ((of_char c :: nat) \<in> set [9, 10, 11, 12, 13, 32, 160])"

definition trim :: "string \<Rightarrow> string" where
  "trim s = rev (dropWhile is_space (rev (dropWhile is_space s)))"

definition is_hex :: "char \<Rightarrow> bool" where
  "is_hex c = (is_digit c \<or> c \<in> set ''abcdefABCDEF'')"

definition radix_literal :: "string \<Rightarrow> bool" where
  "radix_literal s =
     (case s of
        z # x # ds \<Rightarrow>
          z = CHR ''0'' \<and> ds \<noteq> [] \<and>
          ((x \<in> set ''xX'' \<and> list_all is_hex ds) \<or>
           (x \<in> set ''bB'' \<and> list_all (\<lambda>c. c \<in> set ''01'') ds) \<or>
           (x \<in> set ''oO'' \<and> list_all (\<lambda>c. c \<in> set ''01234567'') ds))
      | _ \<Rightarrow> False)"

text \<open>An exponent part, or nothing.\<close>

definition exponent_opt :: "string \<Rightarrow> bool" where
  "exponent_opt s =
     (case s of
        [] \<Rightarrow> True
      | c # r \<Rightarrow>
          c \<in> set ''eE'' \<and>
          (let ds = (case r of [] \<Rightarrow> [] | x # y \<Rightarrow> if x \<in> set ''+-'' then y else r)
           in ds \<noteq> [] \<and> list_all is_digit ds))"

definition unsigned_decimal :: "string \<Rightarrow> bool" where
  "unsigned_decimal s =
     (s = ''Infinity'' \<or>
      (let whole = takeWhile is_digit s; r = dropWhile is_digit s
       in case r of
            [] \<Rightarrow> whole \<noteq> []
          | c # t \<Rightarrow>
              if c = CHR ''.''
              then (whole \<noteq> [] \<or> takeWhile is_digit t \<noteq> []) \<and> exponent_opt (dropWhile is_digit t)
              else whole \<noteq> [] \<and> exponent_opt r))"

definition numeric :: "string \<Rightarrow> bool" where
  "numeric s =
     (let t = trim s
      in t = [] \<or> radix_literal t \<or>
         unsigned_decimal (case t of [] \<Rightarrow> [] | c # r \<Rightarrow> if c \<in> set ''+-'' then r else t))"

fun is_nan :: "jsval \<Rightarrow> bool" where
  "is_nan JUndefined = True"
| "is_nan JNull = False"
| "is_nan (JNum n) = False"
| "is_nan (JStr t) = (\<not> numeric t)"

section \<open>Errors\<close>

text \<open>
  The exceptions of the model: a TypeError and a ReferenceError of the language, the
  error \<open>connect\<close> throws for a missing port, and whatever \<open>url.parse\<close> throws.
\<close>

datatype jserror = TypeError | ReferenceError | PortRequired | UrlError

text \<open>
  A handler either returns or throws; a throw keeps the state as the statements before it
  left it.
\<close>

datatype 'a outcome = Done 'a | Threw jserror 'a

fun state_of :: "'a outcome \<Rightarrow> 'a" where
  "state_of (Done s) = s"
| "state_of (Threw e s) = s"

section \<open>Connection strings: Monitor.toConnectionString, Monitor.parseConnectionString\<close>

text \<open>
  The connection object. \<open>port\<close> is kept as a value because it is concatenated as it
  is (a number from the configuration, a string or \<open>null\<close> from \<open>url.parse\<close>); the other
  fields are strings or absent.
\<close>

record connection =
  protocol :: "string option"
  hostname :: "string option"
  port :: jsval
  path :: "string option"
  namespace :: "string option"
  authorization :: "string option"

text \<open>
  \<^verbatim>\<open>
  var uri = (connection.protocol || 'http:') + '//' + (connection.hostname || '127.0.0.1')
    + ':' + connection.port + (connection.path || '') + (connection.namespace || '');
  if (connection.authorization) {
    uri += (uri.indexOf('?') > 0 ? '&' : '?') + 'auth=' + connection.authorization;
  }
  return uri;
  \<close>
\<close>

definition base_uri :: "connection \<Rightarrow> string" where
  "base_uri c =
     or_else (protocol c) ''http:'' @ ''//'' @ or_else (hostname c) ''127.0.0.1'' @ '':'' @
     to_str (port c) @ or_else (path c) [] @ or_else (namespace c) []"

definition toConnectionString :: "connection \<Rightarrow> string" where
  "toConnectionString c =
     (let uri = base_uri c in
      if or_else (authorization c) [] \<noteq> [] then
        uri @ (case index_of CHR ''?'' uri of
                 Some i \<Rightarrow> if 0 < i then ''&'' else ''?''
               | None \<Rightarrow> ''?'') @ ''auth='' @ or_else (authorization c) []
      else uri)"

text \<open>
  The fields of the object returned by Node's \<open>url.parse\<close> that parseConnectionString
  reads. A field that \<open>url.parse\<close> leaves \<open>null\<close> is \<open>None\<close>.
\<close>

record url =
  url_protocol :: "string option"
  url_hostname :: "string option"
  url_port :: "string option"
  url_path :: "string option"

text \<open>\<open>/^http(s)?:\/\//i.test(s)\<close>\<close>

definition has_http_prefix :: "string \<Rightarrow> bool" where
  "has_http_prefix s = (lower (take 7 s) = ''http://'' \<or> lower (take 8 s) = ''https://'')"

text \<open>lodash's \<open>_.trimLeft(s, '/')\<close>; a \<open>null\<close> argument is treated as the empty string.\<close>

definition trimLeft :: "string option \<Rightarrow> string" where
  "trimLeft s = dropWhile (\<lambda>c. c = CHR ''/'') (case s of None \<Rightarrow> [] | Some p \<Rightarrow> p)"

text \<open>The object parseConnectionString starts from.\<close>

definition default_connection :: connection where
  "default_connection =
     \<lparr>protocol = None, hostname = Some ''127.0.0.1'', port = JNum 8088, path = None,
      namespace = None, authorization = Some []\<rparr>"

text \<open>The first step: the text before the last \<open>@\<close> is the authorization.\<close>

definition split_auth :: "string \<Rightarrow> connection \<times> string" where
  "split_auth s =
     (case last_index_of CHR ''@'' s of
        Some lastAt \<Rightarrow> (default_connection\<lparr>authorization := Some (take lastAt s)\<rparr>, drop (Suc lastAt) s)
      | None \<Rightarrow> (default_connection, s))"

definition with_http :: "string \<Rightarrow> string" where
  "with_http s = (if has_http_prefix s then s else ''http://'' @ s)"

text \<open>
  \<open>url.parse\<close> belongs to Node, not to the repository: it is the parameter \<open>parse\<close>,
  a function that returns the parsed object or throws (the versions of Node differ in
  what they reject). An exception of \<open>url.parse\<close> leaves parseConnectionString.
  \<^verbatim>\<open>
  if (connectionString) {
    connectionString = url.parse(connectionString);
    connection.hostname = connectionString.hostname;
    connection.port = connectionString.port;
    connection.path = _.trimLeft(connectionString.path, '/');
    connection.protocol = connectionString.protocol;
  }
  return connection;
  \<close>
\<close>

definition parseConnectionString :: "(string \<Rightarrow> jserror + url) \<Rightarrow> string \<Rightarrow> jserror + connection" where
  "parseConnectionString parse s =
     (let (c, rest) = split_auth s;
          str = with_http rest
      in if str \<noteq> [] then
           (case parse str of
              Inl err \<Rightarrow> Inl err
            | Inr u \<Rightarrow>
                Inr (c\<lparr>hostname := url_hostname u,
                       port := (case url_port u of None \<Rightarrow> JNull | Some p \<Rightarrow> JStr p),
                       path := Some (trimLeft (url_path u)),
                       protocol := url_protocol u\<rparr>))
         else Inr c)"

section \<open>Node's url.parse on plain addresses\<close>

text \<open>
  What \<open>url.parse\<close> returns is described for plain addresses only: the string is
  \<open>http://\<close> or \<open>https://\<close> in lower case, followed by nothing at all, or by a plain
  hostname, an optional colon and port, and a rest that is empty or starts with \<open>/\<close> or
  \<open>?\<close>. A plain hostname has at most 63 characters, all of them lower-case letters,
  digits and dots, and no empty label; a port is the decimal numeral of a number up to
  65535; the rest consists of letters, digits and the characters \<open>. - _ ~ / ? =\<close>. On
  such a string the parser has nothing to escape, to lower-case, to convert or to
  reject: it returns the scheme as the protocol, the hostname, the port (\<open>null\<close> when
  there is none), and as \<open>path\<close> the rest, with \<open>/\<close> in front when the hostname is not
  empty and the rest does not start with \<open>/\<close>, or \<open>null\<close> when hostname and rest are
  both empty. On every other string the description is silent (\<open>None\<close>): there the
  parser may escape characters, convert the hostname, strip brackets, or throw.
\<close>

definition host_char :: "char \<Rightarrow> bool" where
  "host_char c = (is_digit c \<or> is_lower c \<or> c = CHR ''.'')"

fun dots_apart :: "string \<Rightarrow> bool" where
  "dots_apart (a # b # r) = (\<not> (a = CHR ''.'' \<and> b = CHR ''.'') \<and> dots_apart (b # r))"
| "dots_apart r = True"

definition plain_host :: "string \<Rightarrow> bool" where
  "plain_host h =
     (h \<noteq> [] \<and> length h \<le> 63 \<and> list_all host_char h \<and>
      hd h \<noteq> CHR ''.'' \<and> last h \<noteq> CHR ''.'' \<and> dots_apart h)"

definition path_char :: "char \<Rightarrow> bool" where
  "path_char c =
     (is_digit c \<or> is_lower c \<or> is_upper c \<or> c \<in> set ''.-_~/'')"

definition rest_char :: "char \<Rightarrow> bool" where
  "rest_char c = (path_char c \<or> c \<in> set ''?='')"

definition plain_port :: "string \<Rightarrow> bool" where
  "plain_port d = (d = show_nat (read_nat d) \<and> read_nat d \<le> 65535)"

definition host_end :: "char \<Rightarrow> bool" where
  "host_end c = (c = CHR ''/'' \<or> c = CHR ''?'' \<or> c = CHR ''#'')"

text \<open>\<open>/:[0-9]*$/\<close> on the host: the hostname and the port.\<close>

definition split_port :: "string \<Rightarrow> string \<times> string option" where
  "split_port h =
     (case last_index_of CHR '':'' h of
        Some i \<Rightarrow>
          if list_all is_digit (drop (Suc i) h)
          then (take i h, if drop (Suc i) h = [] then None else Some (drop (Suc i) h))
          else (h, None)
      | None \<Rightarrow> (h, None))"

definition url_parse :: "string \<Rightarrow> url option" where
  "url_parse s =
     (let proto = takeWhile (\<lambda>c. c \<noteq> CHR '':'') s @ '':'';
          rest = drop 3 (dropWhile (\<lambda>c. c \<noteq> CHR '':'') s);
          host = takeWhile (\<lambda>c. \<not> host_end c) rest;
          tail = dropWhile (\<lambda>c. \<not> host_end c) rest;
          (h, p) = split_port host
      in if take 7 s = ''http://'' \<or> take 8 s = ''https://'' then
           if rest = [] then
             Some \<lparr>url_protocol = Some proto, url_hostname = Some [], url_port = None, url_path = None\<rparr>
           else if plain_host h \<and>
                   (case p of None \<Rightarrow> host = h | Some d \<Rightarrow> plain_port d \<and> host = h @ '':'' @ d) \<and>
                   list_all rest_char tail then
             Some \<lparr>url_protocol = Some proto, url_hostname = Some h, url_port = p,
                   url_path = Some (if take 1 tail = ''/'' then tail else ''/'' @ tail)\<rparr>
           else None
         else None)"

text \<open>A parser agrees with the description when it returns what it says wherever it speaks.\<close>

definition agrees :: "(string \<Rightarrow> jserror + url) \<Rightarrow> bool" where
  "agrees parse = (\<forall>s u. url_parse s = Some u \<longrightarrow> parse s = Inr u)"

text \<open>
  The least defined of these parsers: it returns on plain addresses and throws on every
  other string. The examples below, all on plain addresses, are evaluated with it.
\<close>

definition plain_parse :: "string \<Rightarrow> jserror + url" where
  "plain_parse s = (case url_parse s of Some u \<Rightarrow> Inr u | None \<Rightarrow> Inl UrlError)"

section \<open>Objects, payloads and the environment filter of _refreshProcs\<close>

text \<open>
  A JSON value. An object is the list of its own enumerable properties in the order in
  which they were added; reading a property takes the first entry of that name.
\<close>

datatype json = JV jsval | JObj "(string \<times> json) list" | JArr "json list"

type_synonym 'v obj = "(string \<times> 'v) list"

text \<open>\<open>obj[k] = v\<close>: an existing property keeps its place, a new one is appended.\<close>

fun obj_set :: "'v obj \<Rightarrow> string \<Rightarrow> 'v \<Rightarrow> 'v obj" where
  "obj_set [] k v = [(k, v)]"
| "obj_set ((k', v') # ps) k v = (if k' = k then (k, v) # ps else (k', v') # obj_set ps k v)"

text \<open>\<open>delete obj[k]\<close>\<close>

definition obj_delete :: "'v obj \<Rightarrow> string \<Rightarrow> 'v obj" where
  "obj_delete ps k = filter (\<lambda>p. fst p \<noteq> k) ps"

text \<open>
  \<open>obj[k]\<close> read as a value: a missing property is \<open>undefined\<close>. It is used for the
  names \<open>pm2_env\<close> and \<open>USER\<close> and for the object's own names only.
\<close>

definition obj_get :: "json obj \<Rightarrow> string \<Rightarrow> json" where
  "obj_get ps k = (case map_of ps k of None \<Rightarrow> JV JUndefined | Some v \<Rightarrow> v)"

text \<open>
  The names every object inherits from \<open>Object.prototype\<close>. Where the code tests
  \<open>obj[k]\<close> on an object literal, the test succeeds for these names although the object
  has no such property of its own: the value read is the inherited function (or, for
  \<open>__proto__\<close>, the prototype).
\<close>

definition inherited :: "string \<Rightarrow> bool" where
  "inherited k =
     (k \<in> set [''constructor'', ''hasOwnProperty'', ''isPrototypeOf'', ''propertyIsEnumerable'',
               ''toLocaleString'', ''toString'', ''valueOf'', ''__proto__'', ''__defineGetter__'',
               ''__defineSetter__'', ''__lookupGetter__'', ''__lookupSetter__''])"

text \<open>
  \<open>if (obj[k])\<close> on a registry, an object literal whose own properties hold handles,
  timers or 1, all truthy.
\<close>

definition holds :: "'v obj \<Rightarrow> string \<Rightarrow> bool" where
  "holds ps k = (map_of ps k \<noteq> None \<or> inherited k)"

text \<open>
  The order in which \<open>for (k in obj)\<close> visits the names: the array indices (the
  canonical numerals below \<open>2^32 - 1\<close>, that is 4294967295) in ascending order, then the
  other names in the order in which they were added. Two numerals of the same length
  compare as their digits do.
\<close>

fun numeral_less :: "string \<Rightarrow> string \<Rightarrow> bool" where
  "numeral_less (a # r) (b # t) =
     ((of_char a :: nat) < of_char b \<or> (a = b \<and> numeral_less r t))"
| "numeral_less r t = False"

definition is_index :: "string \<Rightarrow> bool" where
  "is_index k =
     (k \<noteq> [] \<and> list_all is_digit k \<and> (length k = 1 \<or> hd k \<noteq> CHR ''0'') \<and>
      (length k < 10 \<or> (length k = 10 \<and> numeral_less k ''4294967295'')))"

definition for_in :: "'v obj \<Rightarrow> string list" where
  "for_in ps =
     sort_key read_nat (filter is_index (map fst ps)) @ filter (\<lambda>k. \<not> is_index k) (map fst ps)"

text \<open>
  The test of the loop in _refreshProcs that skips a key:
  \<^verbatim>\<open>
  key.slice(0, 1) == '_' || key.indexOf('axm_') == 0 ||
  !!~['versioning', 'command'].indexOf(key) || key.charCodeAt(0) <= 90
  \<close>
  \<open>key.indexOf('axm_') == 0\<close> holds exactly when the key starts with \<open>axm_\<close>. For the
  empty key \<open>charCodeAt(0)\<close> is \<open>NaN\<close> and the comparison is false. A character
  outside ASCII has a code above 90 as a UTF-16 unit and as the bytes that stand for it
  here alike.
\<close>

definition ignored :: "string \<Rightarrow> bool" where
  "ignored key =
     (take 1 key = ''_'' \<or> take 4 key = ''axm_'' \<or> key \<in> set [''versioning'', ''command''] \<or>
      (case key of [] \<Rightarrow> False | c # _ \<Rightarrow> (of_char c :: nat) \<le> 90))"

text \<open>
  The body of the \<open>procs.map\<close> callback for one process, on its \<open>pm2_env\<close> (\<open>None\<close>
  when the process has none):
  \<^verbatim>\<open>
  proc.pm2_env = proc.pm2_env || { USER: 'UNKNOWN' };
  var pm2_env = { user: proc.pm2_env.USER };
  for (var key in proc.pm2_env) {
    if (...) { continue; }
    pm2_env[key] = proc.pm2_env[key];
  }
  \<close>
  The array indices, which the loop would visit first, start with a digit and are
  skipped, so the kept keys are visited in the order of the list.
\<close>

definition filter_env :: "json obj option \<Rightarrow> json obj" where
  "filter_env e =
     (let src = (case e of None \<Rightarrow> [(''USER'', JV (JStr ''UNKNOWN''))] | Some ps \<Rightarrow> ps)
      in fold (\<lambda>key acc. if ignored key then acc else obj_set acc key (obj_get src key))
              (map fst src) [(''user'', obj_get src ''USER'')])"

fun json_truthy :: "json \<Rightarrow> bool" where
  "json_truthy (JV v) = truthy v"
| "json_truthy (JObj ps) = True"
| "json_truthy (JArr xs) = True"

text \<open>
  The properties the loop and the read of \<open>USER\<close> find on a truthy \<open>pm2_env\<close>: those
  of the object; for an array and for a string the elements and the characters under
  their indices; none for a number.
\<close>

definition indexed :: "json list \<Rightarrow> json obj" where
  "indexed xs = zip (map show_nat [0..<length xs]) xs"

fun props_of :: "json \<Rightarrow> json obj" where
  "props_of (JObj ps) = ps"
| "props_of (JArr xs) = indexed xs"
| "props_of (JV (JStr t)) = indexed (map (\<lambda>c. JV (JStr [c])) t)"
| "props_of (JV v) = []"

text \<open>
  One process of the list \<open>pm.list\<close> answers with, an object: the default environment
  replaces a missing or falsy \<open>pm2_env\<close> only, and the other properties are kept as
  they are.
\<close>

definition wrap_proc :: "json obj \<Rightarrow> json obj" where
  "wrap_proc proc =
     (let env = obj_get proc ''pm2_env''
      in obj_set proc ''pm2_env''
           (JObj (filter_env (if json_truthy env then Some (props_of env) else None))))"

section \<open>The monitor's state\<close>

text \<open>
  The namespaces of \<open>conf.NSP\<close>: _listeningSocketIO binds its keys \<open>SYS\<close>, \<open>LOG\<close> and
  \<open>PROC\<close> to _connectSysSock, _connectLogSock and _connectProcSock.
\<close>

datatype nsp = SYS | LOG | PROC

text \<open>
  A connected socket with the properties the handlers touch: \<open>socket._pm_id\<close> is set by
  startTailProcess, \<open>socket._pid\<close> by runObserver; killObserver reads \<open>sock.pid\<close>,
  which no handler assigns.
\<close>

record socket =
  sock_id :: nat
  tag_pm_id :: jsval
  tag_pid :: jsval
  prop_pid :: jsval

definition new_socket :: "nat \<Rightarrow> socket" where
  "new_socket i = \<lparr>sock_id = i, tag_pm_id = JUndefined, tag_pid = JUndefined, prop_pid = JUndefined\<rparr>"

text \<open>
  What \<open>this._sockio.of(n).sockets\<close> is: socket.io keeps the sockets of a namespace in
  an array up to version 1.3 and in an object keyed by the socket's id from version 1.4
  on. monitor.js reads the property at three places (lines 184, 294 and 514); an object
  has no \<open>length\<close> and is not an array.
\<close>

datatype shape = AsArray | AsObject

text \<open>What a timer of the runtime runs when it fires, with the variables of its closure.\<close>

datatype timer_action = RefreshProcs | NextTick nat | RunTimer jsval

record timer =
  t_id :: nat
  due :: nat
  every :: "nat option"
  act :: timer_action

text \<open>
  A call to a collaborator whose callback has not run yet, with the variables of the
  callback's closure: \<open>stat.cpuUsage\<close> (the tick), \<open>pm.list\<close>, \<open>pm.tail\<close> (pm_id,
  keepANSI), \<open>pidusage.stat\<close> (pid), \<open>pm.version\<close> (the socket), \<open>pm.action\<close>
  (socket, action, id).
\<close>

datatype request =
    CpuUsage nat
  | PmList
  | PmTail jsval bool
  | PidUsage jsval
  | PmVersion nat
  | PmAction nat jsval jsval

text \<open>
  What a collaborator passes to the callback: an error with its message, or the result.
  \<open>Cpu\<close> carries the snapshot _systemStat assembles (the picked fields of the stat
  module and the cpu usage), \<open>Procs\<close> the array of process objects, \<open>Usage\<close> the
  sample with \<open>memory\<close> already scaled to a percentage (floating point is not
  modelled), \<open>Tail\<close> the handle of the tail process or nothing.
\<close>

datatype reply =
    Failed string
  | Cpu json
  | Procs "json obj list"
  | Tail "nat option"
  | Usage json
  | Version "string option"
  | ActionDone bool

record monitor =
  shape :: shape
  opt_refresh :: nat
  noClient :: bool
  status :: "string option"
  sysStat :: "json option"
  procs :: "json option"
  throttle :: "nat option"
  tails :: "nat obj"
  usages :: "nat obj"
  sockets :: "nsp \<Rightarrow> socket list"
  timers :: "timer list"
  pending :: "(nat \<times> request) list"
  next_id :: nat
  emitted :: "(nsp \<times> string \<times> json) list"
  sent :: "(nat \<times> string \<times> json) list"
  killed :: "nat list"
  refreshed :: "nat list"

text \<open>
  \<open>opt_refresh\<close> is \<open>options.refresh\<close> (0 when it is absent). \<open>sockets s n\<close> lists
  the sockets \<open>this._sockio.of(n).sockets\<close> holds, in the order of their connection, and
  \<open>shape s\<close> says what holds them. \<open>timers\<close> are the armed timers of the runtime and
  \<open>pending\<close> the calls in flight. \<open>emitted\<close> lists what \<open>this._sockio.of(n).emit\<close>
  delivered, \<open>sent\<close> what \<open>socket.emit\<close> sent to one socket, \<open>killed\<close> the tail
  handles that received \<open>kill('SIGTERM')\<close>, and \<open>refreshed\<close> the times at which
  _refreshProcs was invoked.
\<close>

subsection \<open>The runtime: timers and calls in flight\<close>

definition add_timer :: "timer_action \<Rightarrow> nat \<Rightarrow> nat option \<Rightarrow> nat \<Rightarrow> monitor \<Rightarrow> monitor" where
  "add_timer a delay rep now s =
     s\<lparr>timers := timers s @ [\<lparr>t_id = next_id s, due = now + delay, every = rep, act = a\<rparr>],
       next_id := Suc (next_id s)\<rparr>"

definition clear_timer :: "nat \<Rightarrow> monitor \<Rightarrow> monitor" where
  "clear_timer i s = s\<lparr>timers := filter (\<lambda>t. t_id t \<noteq> i) (timers s)\<rparr>"

definition issue :: "request \<Rightarrow> monitor \<Rightarrow> monitor" where
  "issue r s = s\<lparr>pending := pending s @ [(next_id s, r)], next_id := Suc (next_id s)\<rparr>"

definition settle :: "nat \<Rightarrow> monitor \<Rightarrow> monitor" where
  "settle i s = s\<lparr>pending := filter (\<lambda>p. fst p \<noteq> i) (pending s)\<rparr>"

definition connected :: "nsp \<Rightarrow> nat \<Rightarrow> monitor \<Rightarrow> bool" where
  "connected n i s = (i \<in> sock_id ` set (sockets s n))"

definition update_socket :: "nsp \<Rightarrow> nat \<Rightarrow> (socket \<Rightarrow> socket) \<Rightarrow> monitor \<Rightarrow> monitor" where
  "update_socket n i f s =
     s\<lparr>sockets := (sockets s)(n := map (\<lambda>k. if sock_id k = i then f k else k) (sockets s n))\<rparr>"

subsection \<open>_broadcast, _throttleRefresh, _refreshProcs\<close>

text \<open>
  \<^verbatim>\<open>
  nsp = nsp || conf.NSP.SYS;
  if (this._noClient) { return console.debug(...) }
  this._sockio.of(nsp).emit(event, data);
  \<close>
  A call without the third argument is \<open>None\<close>.
\<close>

definition broadcast :: "string \<Rightarrow> json \<Rightarrow> nsp option \<Rightarrow> monitor \<Rightarrow> monitor" where
  "broadcast ev d n s =
     (let target = (case n of None \<Rightarrow> SYS | Some t \<Rightarrow> t)
      in if noClient s then s else s\<lparr>emitted := emitted s @ [(target, ev, d)]\<rparr>)"

text \<open>
  \<^verbatim>\<open>
  if (this._throttle) { clearTimeout(this._throttle); }
  this._throttle = setTimeout(function (ctx) {
    ctx._throttle = null;
    ctx._refreshProcs();
  }, 500, this);
  \<close>
\<close>

definition throttleRefresh :: "nat \<Rightarrow> monitor \<Rightarrow> monitor" where
  "throttleRefresh now s =
     (let s1 = (case throttle s of Some t \<Rightarrow> clear_timer t s | None \<Rightarrow> s)
      in (add_timer RefreshProcs 500 None now s1)\<lparr>throttle := Some (next_id s1)\<rparr>)"

text \<open>_refreshProcs calls \<open>pm.list\<close>; the rest runs in its callback.\<close>

definition refreshProcs :: "nat \<Rightarrow> monitor \<Rightarrow> monitor" where
  "refreshProcs now s = issue PmList (s\<lparr>refreshed := refreshed s @ [now]\<rparr>)"

definition list_done :: "reply \<Rightarrow> monitor \<Rightarrow> monitor" where
  "list_done r s =
     (case r of
        Failed m \<Rightarrow> broadcast ''info'' (JV (JStr (''Can not connect to pm2 daemon, '' @ m))) None s
      | Procs ps \<Rightarrow>
          (let wrapped = JArr (map (\<lambda>p. JObj (wrap_proc p)) ps)
           in broadcast ''procs'' wrapped None (s\<lparr>procs := Some wrapped\<rparr>))
      | _ \<Rightarrow> s)"

subsection \<open>_nextTick, _systemStat\<close>

text \<open>
  \<^verbatim>\<open>
  if (this._status == 'R' && !continuously) { return; }
  this._status = 'R';
  this._systemStat(function () { ... });
  \<close>
  _systemStat calls \<open>stat.cpuUsage\<close>; the callback and the function passed to _systemStat
  run when it answers.
\<close>

definition nextTick :: "nat \<Rightarrow> bool \<Rightarrow> monitor \<Rightarrow> monitor" where
  "nextTick tick continuously s =
     (if status s = Some ''R'' \<and> \<not> continuously then s
      else issue (CpuUsage tick) (s\<lparr>status := Some ''R''\<rparr>))"

text \<open>
  \<^verbatim>\<open>
  if (!this._noClient) {
    return setTimeout(this._nextTick.bind(this, tick, true), tick);
  }
  delete this._status;
  \<close>
\<close>

definition after_stat :: "nat \<Rightarrow> nat \<Rightarrow> monitor \<Rightarrow> monitor" where
  "after_stat now tick s =
     (if \<not> noClient s then add_timer (NextTick tick) tick None now s
      else s\<lparr>status := None\<rparr>)"

definition stat_done :: "nat \<Rightarrow> nat \<Rightarrow> reply \<Rightarrow> monitor \<Rightarrow> monitor" where
  "stat_done now tick r s =
     (case r of
        Cpu snap \<Rightarrow> after_stat now tick (broadcast ''system_stat'' snap None (s\<lparr>sysStat := Some snap\<rparr>))
      | _ \<Rightarrow> after_stat now tick s)"

subsection \<open>The system namespace: _connectSysSock\<close>

fun is_string :: "json \<Rightarrow> bool" where
  "is_string (JV (JStr t)) = True"
| "is_string j = False"

text \<open>
  \<^verbatim>\<open>
  self._procs && socket.emit(typeof self._procs == 'string' ? 'info' : 'procs', self._procs);
  \<close>
\<close>

definition sendProcs :: "nat \<Rightarrow> monitor \<Rightarrow> monitor" where
  "sendProcs i s =
     (case procs s of
        Some p \<Rightarrow>
          if json_truthy p
          then s\<lparr>sent := sent s @ [(i, if is_string p then ''info'' else ''procs'', p)]\<rparr>
          else s
      | None \<Rightarrow> s)"

text \<open>
  \<^verbatim>\<open>
  self._noClient = false;
  socket.on('disconnect', ...); socket.on('action', ...);
  sendProcs();
  socket.on('procs', sendProcs);
  self._pm2Ver(socket);
  this._sysStat && this._broadcast('system_stat', this._sysStat);
  (this._status != 'R') && this._nextTick(this.options.refresh || 5000);
  \<close>
\<close>

definition interval :: "monitor \<Rightarrow> nat" where
  "interval s = (if opt_refresh s \<noteq> 0 then opt_refresh s else 5000)"

definition connectSysSock :: "nat \<Rightarrow> monitor \<Rightarrow> monitor" where
  "connectSysSock i s =
     (let s1 = s\<lparr>noClient := False\<rparr>;
          s2 = sendProcs i s1;
          s3 = issue (PmVersion i) s2;
          s4 = (case sysStat s3 of
                  Some snap \<Rightarrow> if json_truthy snap then broadcast ''system_stat'' snap None s3 else s3
                | None \<Rightarrow> s3)
      in if status s4 \<noteq> Some ''R'' then nextTick (interval s4) False s4 else s4)"

text \<open>
  The disconnect handler of a system socket; the transport has removed the socket from
  the namespace before it runs:
  \<^verbatim>\<open>self._noClient = self._sockio.of(conf.NSP.SYS).sockets.length == 0;\<close>
  On an object \<open>sockets.length\<close> is \<open>undefined\<close>, and \<open>undefined == 0\<close> is false.
\<close>

definition disconnectSysSock :: "monitor \<Rightarrow> monitor" where
  "disconnectSysSock s =
     s\<lparr>noClient := (case shape s of AsArray \<Rightarrow> length (sockets s SYS) = 0 | AsObject \<Rightarrow> False)\<rparr>"

definition action_done :: "nat \<Rightarrow> nat \<Rightarrow> jsval \<Rightarrow> reply \<Rightarrow> monitor \<Rightarrow> monitor" where
  "action_done now i ident r s =
     (case r of
        Failed m \<Rightarrow> s\<lparr>sent := sent s @ [(i, ''action'', JArr [JV ident, JV (JStr m)])]\<rparr>
      | ActionDone forceRefresh \<Rightarrow> if forceRefresh then throttleRefresh now s else s
      | _ \<Rightarrow> s)"

text \<open>\<open>socket.emit('pm2_ver', (err || !version) ? '0.0.0' : version)\<close>\<close>

definition version_done :: "nat \<Rightarrow> reply \<Rightarrow> monitor \<Rightarrow> monitor" where
  "version_done i r s =
     (let v = (case r of Version (Some t) \<Rightarrow> if t = [] then ''0.0.0'' else t | _ \<Rightarrow> ''0.0.0'')
      in s\<lparr>sent := sent s @ [(i, ''pm2_ver'', JV (JStr v))]\<rparr>)"

subsection \<open>The log namespace: startTailProcess, _killTailProcess\<close>

definition dquote :: char where
  "dquote = CHR 0x22"

text \<open>\<open>'<span style="color: #ff0000">Error: ' + err.message + '</span>'\<close>\<close>

definition span_error :: "string \<Rightarrow> string" where
  "span_error m =
     ''<span style='' @ [dquote] @ ''color: #ff0000'' @ [dquote] @ ''>Error: '' @ m @ ''</span>''"

text \<open>\<open>chalk.red\<close> with colours on: the text between the escape sequences for red and reset.\<close>

definition chalk_red :: "string \<Rightarrow> string" where
  "chalk_red m = CHR 0x1B # ''[31m'' @ m @ CHR 0x1B # ''[39m''"

text \<open>emitError of _connectLogSock.\<close>

definition emitError_log :: "string \<Rightarrow> jsval \<Rightarrow> bool \<Rightarrow> monitor \<Rightarrow> monitor" where
  "emitError_log m pm_id keepANSI s =
     broadcast ''log''
       (JObj [(''pm_id'', JV pm_id),
              (''msg'', JV (JStr (if keepANSI then chalk_red m else span_error m)))])
       (Some LOG) s"

text \<open>
  \<^verbatim>\<open>
  socket._pm_id = pm_id;
  if (self._tails[pm_id]) { return; }
  pm.tail({...}, function (err, lines) {...}, function (err, tail) {...});
  \<close>
  The property name of \<open>self._tails[pm_id]\<close> is the string of \<open>pm_id\<close>. The line
  callback of \<open>pm.tail\<close> formats the lines of the log with ansi-html and hands them to
  _broadcast; it touches nothing else of the monitor and is left out.
\<close>

definition startTailProcess :: "nat \<Rightarrow> jsval \<Rightarrow> bool \<Rightarrow> monitor \<Rightarrow> monitor" where
  "startTailProcess i pm_id keepANSI s =
     (let s1 = update_socket LOG i (\<lambda>k. k\<lparr>tag_pm_id := pm_id\<rparr>) s
      in if holds (tails s1) (to_str pm_id) then s1
         else issue (PmTail pm_id keepANSI) s1)"

text \<open>
  The second callback of \<open>pm.tail\<close>:
  \<^verbatim>\<open>
  if (err) { return emitError(err, pm_id, keepANSI); }
  if (!tail) { return emitError(new Error('No log can be found.'), pm_id, keepANSI); }
  self._tails[pm_id] = tail;
  \<close>
\<close>

definition tail_opened :: "jsval \<Rightarrow> bool \<Rightarrow> reply \<Rightarrow> monitor \<Rightarrow> monitor" where
  "tail_opened pm_id keepANSI r s =
     (case r of
        Failed m \<Rightarrow> emitError_log m pm_id keepANSI s
      | Tail None \<Rightarrow> emitError_log ''No log can be found.'' pm_id keepANSI s
      | Tail (Some h) \<Rightarrow> s\<lparr>tails := obj_set (tails s) (to_str pm_id) h\<rparr>
      | _ \<Rightarrow> s)"

text \<open>
  killTail of _killTailProcess: \<open>tail.kill('SIGTERM')\<close> inside \<open>try\<close>, then
  \<open>delete self._tails[id]\<close>; nothing when there is no handle. (For an inherited name
  without a handle the value read has no \<open>kill\<close>, the TypeError is caught and nothing
  is deleted.)
\<close>

definition killTail :: "string \<Rightarrow> monitor \<Rightarrow> monitor" where
  "killTail k s =
     (case map_of (tails s) k of
        None \<Rightarrow> s
      | Some h \<Rightarrow> s\<lparr>killed := killed s @ [h], tails := obj_delete (tails s) k\<rparr>)"

text \<open>
  \<^verbatim>\<open>
  if (!isNaN(pm_id)) { return killTail(pm_id); }
  var socks = self._sockio.of(conf.NSP.LOG).sockets, canNotBeDeleted = {};
  if (socks && socks.length > 0) {
    socks.forEach(function (sock) { canNotBeDeleted[sock._pm_id] = 1; });
  }
  for (var pm_id in self._tails) {
    if (!canNotBeDeleted[pm_id]) { killTail(pm_id); }
  }
  \<close>
  On an object \<open>socks.length > 0\<close> is \<open>undefined > 0\<close>, which is false, and nothing
  is entered into \<open>canNotBeDeleted\<close>.
\<close>

definition claimed_tails :: "monitor \<Rightarrow> string list" where
  "claimed_tails s =
     (if shape s = AsArray \<and> 0 < length (sockets s LOG)
      then map (\<lambda>k. to_str (tag_pm_id k)) (sockets s LOG) else [])"

definition killTailProcess :: "jsval \<Rightarrow> monitor \<Rightarrow> monitor" where
  "killTailProcess pm_id s =
     (if \<not> is_nan pm_id then killTail (to_str pm_id) s
      else (let canNotBeDeleted = claimed_tails s
            in fold (\<lambda>k s'. if k \<in> set canNotBeDeleted \<or> inherited k then s' else killTail k s')
                    (for_in (tails s)) s))"

subsection \<open>The process namespace: killObserver, runObserver\<close>

text \<open>\<open>v.toString()\<close>: a TypeError on \<open>undefined\<close> and \<open>null\<close>.\<close>

fun toString :: "jsval \<Rightarrow> jserror + string" where
  "toString JUndefined = Inl TypeError"
| "toString JNull = Inl TypeError"
| "toString (JNum n) = Inr (show_nat (unat n))"
| "toString (JStr t) = Inr t"

text \<open>
  \<^verbatim>\<open>
  socks.forEach(function (sock) { canNotBeDeleted[sock.pid.toString()] = 1; });
  \<close>
  The first socket whose \<open>pid\<close> property is \<open>undefined\<close> or \<open>null\<close> ends the loop
  with a TypeError.
\<close>

fun claimed_pids :: "socket list \<Rightarrow> jserror + string list" where
  "claimed_pids [] = Inr []"
| "claimed_pids (k # ks) =
     (case toString (prop_pid k) of
        Inl e \<Rightarrow> Inl e
      | Inr key \<Rightarrow> (case claimed_pids ks of Inl e \<Rightarrow> Inl e | Inr keys \<Rightarrow> Inr (key # keys)))"

text \<open>
  \<^verbatim>\<open>
  var socks = self._sockio.of(conf.NSP.PROC).sockets, canNotBeDeleted = {};
  if (Array.isArray(socks) && socks.length > 0) {
    socks.forEach(function (sock) { canNotBeDeleted[sock.pid.toString()] = 1; });
  }
  for (var pid in self._usages) {
    var timer;
    if (!canNotBeDeleted[pid] && (timer = self._usages[pid])) {
      clearInterval(timer);
      delete self._usages[pid];
    }
  }
  \<close>
  On an object the test \<open>Array.isArray(socks)\<close> fails and the sockets are not visited.
\<close>

definition drop_usage :: "string \<Rightarrow> monitor \<Rightarrow> monitor" where
  "drop_usage k s =
     (case map_of (usages s) k of
        None \<Rightarrow> s
      | Some t \<Rightarrow> (clear_timer t s)\<lparr>usages := obj_delete (usages s) k\<rparr>)"

definition killObserver :: "monitor \<Rightarrow> monitor outcome" where
  "killObserver s =
     (case (if shape s = AsArray \<and> 0 < length (sockets s PROC)
            then claimed_pids (sockets s PROC) else Inr []) of
        Inl e \<Rightarrow> Threw e s
      | Inr canNotBeDeleted \<Rightarrow>
          Done (fold (\<lambda>k s'. if k \<in> set canNotBeDeleted \<or> inherited k then s' else drop_usage k s')
                     (for_in (usages s)) s))"

text \<open>
  \<^verbatim>\<open>
  socket._pid = pid;
  var pidStr = pid.toString();
  if (self._usages[pidStr]) { return; }
  function runTimer() { pidusage.stat(pid, function (err, stat) {...}); }
  self._usages[pidStr] = setInterval(runTimer, 3000);
  runTimer(this);
  \<close>
\<close>

definition runObserver :: "nat \<Rightarrow> nat \<Rightarrow> jsval \<Rightarrow> monitor \<Rightarrow> monitor outcome" where
  "runObserver now i pid s =
     (let s1 = update_socket PROC i (\<lambda>k. k\<lparr>tag_pid := pid\<rparr>) s
      in case toString pid of
           Inl e \<Rightarrow> Threw e s1
         | Inr pidStr \<Rightarrow>
             if holds (usages s1) pidStr then Done s1
             else (let s2 = (add_timer (RunTimer pid) 3000 (Some 3000) now s1)
                              \<lparr>usages := obj_set (usages s1) pidStr (next_id s1)\<rparr>
                   in Done (issue (PidUsage pid) s2)))"

text \<open>
  The callback of \<open>pidusage.stat\<close> in runTimer:
  \<^verbatim>\<open>
  if (err) {
    clearInterval(ctx._usages[pidStr]);
    delete ctx._usages[pidStr];
    return emitError.call(self, err, pid);
  }
  stat.memory = stat.memory * 100 / totalmem;
  var data = { pid: pid, time: Date.now(), usage: stat };
  self._broadcast.call(self, 'proc', data, conf.NSP.PROC);
  \<close>
  No \<open>ctx\<close> is declared in runTimer, runObserver, _connectProcSock or the module (the
  only \<open>ctx\<close> of the file is the parameter of the timeout function in _throttleRefresh),
  so evaluating \<open>ctx._usages\<close> throws a ReferenceError before anything else happens.
  \<open>Date.now()\<close> is the clock of the model; it stays below \<open>2^53\<close>.
\<close>

definition usage_done :: "nat \<Rightarrow> jsval \<Rightarrow> reply \<Rightarrow> monitor \<Rightarrow> monitor outcome" where
  "usage_done now pid r s =
     (case r of
        Failed m \<Rightarrow> Threw ReferenceError s
      | Usage u \<Rightarrow>
          Done (broadcast ''proc''
                  (JObj [(''pid'', JV pid), (''time'', JV (JNum (of_nat now))), (''usage'', u)])
                  (Some PROC) s)
      | _ \<Rightarrow> Done s)"

subsection \<open>Events\<close>

text \<open>
  What reaches the monitor: a connection or a disconnection on a namespace (the transport
  adds the socket to the namespace before the connection handler runs and removes it
  before the disconnect handlers run, passing them the reason), the messages \<open>action\<close>,
  \<open>procs\<close>, \<open>tail\<close>, \<open>tail_kill\<close> and \<open>proc\<close> of a connected socket, an event
  published by the pm2 daemon, a timer that fires, and the answer to a call in flight.
\<close>

datatype event =
    Connection nsp nat
  | Disconnect nsp nat string
  | ActionMsg nat jsval jsval
  | ProcsMsg nat
  | TailMsg nat jsval bool
  | TailKillMsg nat jsval
  | ProcMsg nat jsval
  | Pm2Event
  | Fire nat
  | Answer nat reply

text \<open>
  A timer fires no earlier than it is due. A timeout is gone once it has fired, an
  interval timer is armed again; then the timer's function runs.
\<close>

definition rearm :: "nat \<Rightarrow> timer \<Rightarrow> monitor \<Rightarrow> monitor" where
  "rearm now t s =
     (case every t of
        None \<Rightarrow> clear_timer (t_id t) s
      | Some d \<Rightarrow>
          s\<lparr>timers := map (\<lambda>u. if t_id u = t_id t then u\<lparr>due := now + d\<rparr> else u) (timers s)\<rparr>)"

definition expire :: "nat \<Rightarrow> timer_action \<Rightarrow> monitor \<Rightarrow> monitor" where
  "expire now a s =
     (case a of
        RefreshProcs \<Rightarrow> refreshProcs now (s\<lparr>throttle := None\<rparr>)
      | NextTick tick \<Rightarrow> nextTick tick True s
      | RunTimer pid \<Rightarrow> issue (PidUsage pid) s)"

definition fire :: "nat \<Rightarrow> nat \<Rightarrow> monitor \<Rightarrow> monitor" where
  "fire now i s =
     (case find (\<lambda>t. t_id t = i) (timers s) of
        None \<Rightarrow> s
      | Some t \<Rightarrow> if now < due t then s else expire now (act t) (rearm now t s))"

fun fits :: "request \<Rightarrow> reply \<Rightarrow> bool" where
  "fits q (Failed m) = True"
| "fits (CpuUsage tick) (Cpu snap) = True"
| "fits PmList (Procs ps) = True"
| "fits (PmTail pm_id keepANSI) (Tail h) = True"
| "fits (PidUsage pid) (Usage u) = True"
| "fits (PmVersion i) (Version v) = True"
| "fits (PmAction i a ident) (ActionDone f) = True"
| "fits q r = False"

definition answer :: "nat \<Rightarrow> nat \<Rightarrow> reply \<Rightarrow> monitor \<Rightarrow> monitor outcome" where
  "answer now i r s =
     (case map_of (pending s) i of
        None \<Rightarrow> Done s
      | Some q \<Rightarrow>
          if \<not> fits q r then Done s
          else (case q of
                  CpuUsage tick \<Rightarrow> Done (stat_done now tick r (settle i s))
                | PmList \<Rightarrow> Done (list_done r (settle i s))
                | PmTail pm_id keepANSI \<Rightarrow> Done (tail_opened pm_id keepANSI r (settle i s))
                | PidUsage pid \<Rightarrow> usage_done now pid r (settle i s)
                | PmVersion k \<Rightarrow> Done (version_done k r (settle i s))
                | PmAction k a ident \<Rightarrow> Done (action_done now k ident r (settle i s))))"

definition join :: "nsp \<Rightarrow> nat \<Rightarrow> monitor \<Rightarrow> monitor" where
  "join n i s = s\<lparr>sockets := (sockets s)(n := sockets s n @ [new_socket i])\<rparr>"

definition leave :: "nsp \<Rightarrow> nat \<Rightarrow> monitor \<Rightarrow> monitor" where
  "leave n i s = s\<lparr>sockets := (sockets s)(n := filter (\<lambda>k. sock_id k \<noteq> i) (sockets s n))\<rparr>"

fun step :: "nat \<Rightarrow> event \<Rightarrow> monitor \<Rightarrow> monitor outcome" where
  "step now (Connection n i) s =
     (if connected n i s then Done s
      else (case n of
              SYS \<Rightarrow> Done (connectSysSock i (join n i s))
            | LOG \<Rightarrow> Done (join n i s)
            | PROC \<Rightarrow> Done (join n i s)))"
| "step now (Disconnect n i reason) s =
     (if \<not> connected n i s then Done s
      else (case n of
              SYS \<Rightarrow> Done (disconnectSysSock (leave n i s))
            | LOG \<Rightarrow> Done (killTailProcess (JStr reason) (leave n i s))
            | PROC \<Rightarrow> killObserver (leave n i s)))"
| "step now (ActionMsg i a ident) s =
     (if connected SYS i s then Done (issue (PmAction i a ident) s) else Done s)"
| "step now (ProcsMsg i) s = (if connected SYS i s then Done (sendProcs i s) else Done s)"
| "step now (TailMsg i pm_id keepANSI) s =
     (if connected LOG i s then Done (startTailProcess i pm_id keepANSI s) else Done s)"
| "step now (TailKillMsg i pm_id) s =
     (if connected LOG i s then Done (killTailProcess pm_id s) else Done s)"
| "step now (ProcMsg i pid) s = (if connected PROC i s then runObserver now i pid s else Done s)"
| "step now Pm2Event s = Done (throttleRefresh now s)"
| "step now (Fire i) s = Done (fire now i s)"
| "step now (Answer i r) s = answer now i r s"

text \<open>
  A run of events, each with the time at which it is handled. An exception that leaves a
  handler is uncaught and ends the process.
\<close>

fun exec :: "(nat \<times> event) list \<Rightarrow> monitor \<Rightarrow> monitor outcome" where
  "exec [] s = Done s"
| "exec ((t, e) # es) s =
     (case step t e s of Done s' \<Rightarrow> exec es s' | Threw err s' \<Rightarrow> Threw err s')"

text \<open>
  Monitor.prototype.run at time \<open>now\<close>, on a transport that holds its sockets as
  \<open>k\<close> says, with \<open>options.refresh = r\<close> and no socket connected yet: it resets the
  flags and the registries, and _observePM2 subscribes to the daemon and calls
  _throttleRefresh.
\<close>

definition run :: "shape \<Rightarrow> nat \<Rightarrow> nat \<Rightarrow> monitor" where
  "run k r now =
     throttleRefresh now
       \<lparr>shape = k, opt_refresh = r, noClient = True, status = None, sysStat = None, procs = None,
        throttle = None, tails = [], usages = [], sockets = (\<lambda>n. []), timers = [],
        pending = [], next_id = 0, emitted = [], sent = [], killed = [], refreshed = []\<rparr>"

section \<open>The client side: Monitor.prototype.connect\<close>

text \<open>
  The callbacks are function objects; \<open>connect\<close> keeps its flag in their \<open>_called\<close>
  property, so the flag belongs to the function and not to the connection. A function
  object is named by a number, \<open>called\<close> is the store of the \<open>_called\<close> properties,
  \<open>calls\<close> lists the invocations and \<open>attempts\<close> the URIs given to the socket.io
  client. A callback is taken to return normally and to leave \<open>_called\<close> alone.
\<close>

datatype sock_event = OnConnect | OnError string | OnConnectError string

record client =
  called :: "nat \<Rightarrow> bool"
  calls :: "(nat \<times> sock_event) list"
  attempts :: "string list"

text \<open>
  \<^verbatim>\<open>
  if (!options.port) { throw new Error('Port is required!'); }
  var auth, serverUri = Monitor.toConnectionString(options);
  var socket = socketIOClient(serverUri);
  socket.on('connect', ...); socket.on('error', ...); socket.on('connect_error', ...);
  \<close>
\<close>

definition connect :: "connection \<Rightarrow> client \<Rightarrow> client outcome" where
  "connect opts w =
     (if \<not> truthy (port opts) then Threw PortRequired w
      else Done (w\<lparr>attempts := attempts w @ [toConnectionString opts]\<rparr>))"

text \<open>\<open>!f._called && f(...); f._called = true;\<close>\<close>

definition call_once :: "nat \<Rightarrow> sock_event \<Rightarrow> client \<Rightarrow> client" where
  "call_once f e w =
     (let w1 = (if \<not> called w f then w\<lparr>calls := calls w @ [(f, e)]\<rparr> else w)
      in w1\<lparr>called := (called w1)(f := True)\<rparr>)"

text \<open>The three handlers, for the callbacks \<open>success\<close> and \<open>failure\<close>.\<close>

fun socket_event :: "nat \<Rightarrow> nat \<Rightarrow> sock_event \<Rightarrow> client \<Rightarrow> client" where
  "socket_event success failure OnConnect w = call_once success OnConnect w"
| "socket_event success failure (OnError m) w = call_once failure (OnError m) w"
| "socket_event success failure (OnConnectError m) w = call_once failure (OnConnectError m) w"

definition socket_events :: "nat \<Rightarrow> nat \<Rightarrow> sock_event list \<Rightarrow> client \<Rightarrow> client" where
  "socket_events success failure es w = fold (socket_event success failure) es w"

section \<open>Predicates and views used by the properties\<close>

subsection \<open>Plain endpoints\<close>

text \<open>
  A plain endpoint: the protocol is absent, \<open>http:\<close> or \<open>https:\<close>; the hostname is
  absent or a plain hostname; the port is an integer from 0 to 65535; path, namespace
  and authorization are absent or consist of letters, digits and \<open>. - _ ~ /\<close>, and
  path and namespace each start with \<open>/\<close> when they are not empty. The encoding of a
  plain endpoint is a plain address.
\<close>

definition plain :: "connection \<Rightarrow> bool" where
  "plain e =
     (or_else (protocol e) ''http:'' \<in> set [''http:'', ''https:''] \<and>
      plain_host (or_else (hostname e) ''127.0.0.1'') \<and>
      (case port e of JNum n \<Rightarrow> n \<le> 65535 | _ \<Rightarrow> False) \<and>
      list_all path_char (or_else (path e) []) \<and>
      take 1 (or_else (path e) []) \<in> set [[], ''/''] \<and>
      list_all path_char (or_else (namespace e) []) \<and>
      take 1 (or_else (namespace e) []) \<in> set [[], ''/''] \<and>
      list_all path_char (or_else (authorization e) []))"

text \<open>What toConnectionString appends to the port.\<close>

definition uri_tail :: "connection \<Rightarrow> string" where
  "uri_tail e =
     or_else (path e) [] @ or_else (namespace e) [] @
     (if or_else (authorization e) [] = [] then [] else ''?auth='' @ or_else (authorization e) [])"

subsection \<open>The callbacks of connect\<close>

text \<open>How often the function object \<open>f\<close> has been invoked.\<close>

definition invocations :: "nat \<Rightarrow> client \<Rightarrow> nat" where
  "invocations f w = length (filter (\<lambda>c. fst c = f) (calls w))"

subsection \<open>Presence\<close>

text \<open>
  The transport's way of holding sockets, the presence flag and the sockets of the
  system namespace.
\<close>

definition presence :: "monitor \<Rightarrow> shape \<times> bool \<times> socket list" where
  "presence s = (shape s, noClient s, sockets s SYS)"

text \<open>The flag says whether the system namespace is empty.\<close>

definition tracked :: "monitor \<Rightarrow> bool" where
  "tracked s = (noClient s = (sockets s SYS = []))"

subsection \<open>Registries\<close>

text \<open>
  No handle or timer is registered, and no tail is being opened, under a name that
  objects inherit.
\<close>

fun own_request :: "request \<Rightarrow> bool" where
  "own_request (PmTail pm_id keepANSI) = (\<not> inherited (to_str pm_id))"
| "own_request q = True"

definition own_names :: "monitor \<Rightarrow> bool" where
  "own_names s =
     (list_all (\<lambda>p. \<not> inherited (fst p)) (tails s) \<and>
      list_all (\<lambda>p. \<not> inherited (fst p)) (usages s) \<and>
      list_all (\<lambda>p. own_request (snd p)) (pending s))"



subsection \<open>The heartbeat at rest\<close>

fun is_cpu :: "request \<Rightarrow> bool" where
  "is_cpu (CpuUsage tick) = True"
| "is_cpu q = False"

fun is_tick :: "timer_action \<Rightarrow> bool" where
  "is_tick (NextTick tick) = True"
| "is_tick a = False"

text \<open>
  The heartbeat is at rest: the status is not set, no \<open>stat.cpuUsage\<close> call is in
  flight and no timeout of _nextTick is armed.
\<close>

definition idle :: "monitor \<Rightarrow> bool" where
  "idle s =
     (status s = None \<and> filter (\<lambda>p. is_cpu (snd p)) (pending s) = [] \<and>
      filter (\<lambda>t. is_tick (act t)) (timers s) = [])"

fun is_sys_connection :: "event \<Rightarrow> bool" where
  "is_sys_connection (Connection SYS i) = True"
| "is_sys_connection e = False"

subsection \<open>Bursts of the throttle trigger\<close>

text \<open>
  The timers are well formed: their numbers are distinct and below the next free
  number, and a timer that runs the refresh is the timeout \<open>this._throttle\<close> holds.
\<close>

definition throttle_ok :: "monitor \<Rightarrow> bool" where
  "throttle_ok s =
     (distinct (map t_id (timers s)) \<and>
      (\<forall>t \<in> set (timers s). t_id t < next_id s) \<and>
      (\<forall>t \<in> set (timers s). act t = RefreshProcs \<longrightarrow> throttle s = Some (t_id t) \<and> every t = None))"

text \<open>
  The timeout number \<open>i\<close> set by the call of the trigger at time \<open>L\<close> is the one
  \<open>this._throttle\<close> holds and is armed for \<open>L + 500\<close>.
\<close>

definition armed :: "nat \<Rightarrow> nat \<Rightarrow> monitor \<Rightarrow> bool" where
  "armed i L s =
     (throttle s = Some i \<and>
      find (\<lambda>t. t_id t = i) (timers s) =
        Some \<lparr>t_id = i, due = L + 500, every = None, act = RefreshProcs\<rparr>)"

text \<open>
  What follows a call of the trigger at time \<open>L\<close> in a burst: further calls (an event
  of the pm2 daemon each), each less than 500 ms after the one before, and timers that
  fire in between.
\<close>

fun burst :: "nat \<Rightarrow> (nat \<times> event) list \<Rightarrow> bool" where
  "burst L [] = True"
| "burst L ((t, e) # es) =
     (L \<le> t \<and> t < L + 500 \<and>
      (case e of Pm2Event \<Rightarrow> burst t es | Fire i \<Rightarrow> burst L es | _ \<Rightarrow> False))"

text \<open>The time of the last call of the trigger in such a burst.\<close>

fun last_trigger :: "nat \<Rightarrow> (nat \<times> event) list \<Rightarrow> nat" where
  "last_trigger L [] = L"
| "last_trigger L ((t, e) # es) = (if e = Pm2Event then last_trigger t es else last_trigger L es)"

fun is_fire :: "event \<Rightarrow> bool" where
  "is_fire (Fire i) = True"
| "is_fire e = False"

section \<open>Inputs of the examples\<close>

text \<open>An endpoint of the system namespace on a remote host, with a token.\<close>

definition sys_endpoint :: connection where
  "sys_endpoint =
     \<lparr>protocol = None, hostname = Some ''example.com'', port = JNum 8088, path = None,
      namespace = Some ''/sys'', authorization = Some ''secret''\<rparr>"

text \<open>What parseConnectionString makes of the encoding of that endpoint.\<close>

definition sys_decoded :: connection where
  "sys_decoded =
     \<lparr>protocol = Some ''http:'', hostname = Some ''example.com'', port = JStr ''8088'',
      path = Some ''sys?auth=secret'', namespace = None, authorization = Some []\<rparr>"

text \<open>Options without a port.\<close>

definition no_port :: connection where
  "no_port =
     \<lparr>protocol = None, hostname = Some ''example.com'', port = JUndefined, path = None,
      namespace = None, authorization = None\<rparr>"

text \<open>A client on which no callback has been flagged or invoked and nothing was tried.\<close>

definition idle_client :: client where
  "idle_client = \<lparr>called = (\<lambda>f. False), calls = [], attempts = []\<rparr>"

text \<open>The environment of the example in the specification of the filter.\<close>

definition example_env :: "json obj" where
  "example_env =
     [(''_internal'', JV (JNum 1)), (''axm_monitor'', JV (JNum 1)),
      (''versioning'', JV (JStr ''x'')), (''command'', JV (JStr ''y'')),
      (''PORT'', JV (JStr ''80'')), (''user_key'', JV (JStr ''v'')),
      (''USER'', JV (JStr ''alice''))]"

text \<open>An environment that has a variable \<open>user\<close> of its own beside \<open>USER\<close>.\<close>

definition clash_env :: "json obj" where
  "clash_env = [(''USER'', JV (JStr ''alice'')), (''user'', JV (JStr ''bob''))]"

text \<open>
  Two sockets of the process namespace ask for the usage of the pids 100 and 200; then
  the first one disconnects.
\<close>

definition two_observers :: "(nat \<times> event) list" where
  "two_observers =
     [(0, Connection PROC 1), (0, Connection PROC 2),
      (1, ProcMsg 1 (JNum 100)), (2, ProcMsg 2 (JNum 200))]"

definition first_observer_leaves :: "(nat \<times> event) list" where
  "first_observer_leaves = two_observers @ [(3, Disconnect PROC 1 ''transport close'')]"


text \<open>
  A system socket is connected, a process socket asks for the usage of pid 100, and the
  first sample (the call with number 4) fails.
\<close>

definition failed_sample :: "(nat \<times> event) list" where
  "failed_sample =
     [(0, Connection SYS 0), (0, Connection PROC 1), (1, ProcMsg 1 (JNum 100)),
      (2, Answer 4 (Failed ''No matching pid found''))]"

text \<open>
  A system client and a log client connect, the log client asks for the tail of process
  42 (the call with number 3), and the system client leaves; then \<open>pm.tail\<close> answers
  that there is no log.
\<close>

definition sys_left :: "(nat \<times> event) list" where
  "sys_left =
     [(0, Connection SYS 0), (1, Connection LOG 1), (2, TailMsg 1 (JNum 42) False),
      (3, Disconnect SYS 0 ''transport close'')]"

definition no_log_found :: "(nat \<times> event) list" where
  "no_log_found = sys_left @ [(4, Answer 3 (Tail None))]"

text \<open>What emitError of the log namespace broadcasts then.\<close>

definition no_log_payload :: json where
  "no_log_payload =
     JObj [(''pm_id'', JV (JNum 42)), (''msg'', JV (JStr (span_error ''No log can be found.'')))]"

text \<open>
  A log client asks for the tail of process 42 twice (the calls 1 and 2) before
  \<open>pm.tail\<close> has called back; then the callbacks hand over the handles 7 and 8; at last
  the client leaves.
\<close>

definition asked_twice :: "(nat \<times> event) list" where
  "asked_twice =
     [(0, Connection LOG 1), (1, TailMsg 1 (JNum 42) False), (2, TailMsg 1 (JNum 42) False)]"

definition both_opened :: "(nat \<times> event) list" where
  "both_opened = asked_twice @ [(3, Answer 1 (Tail (Some 7))), (4, Answer 2 (Tail (Some 8)))]"

definition then_left :: "(nat \<times> event) list" where
  "then_left = both_opened @ [(5, Disconnect LOG 1 ''transport close'')]"

text \<open>
  Clients of the log and process namespaces come and ask for a tail and for a usage
  observer, and the throttle timer fires; no client of the system namespace connects.
\<close>

definition quiet_trace :: "(nat \<times> event) list" where
  "quiet_trace =
     [(0, Connection LOG 1), (1, TailMsg 1 (JNum 42) False), (2, Connection PROC 2),
      (3, ProcMsg 2 (JNum 100)), (600, Fire 0)]"

text \<open>
  The only system client connects, the first \<open>stat.cpuUsage\<close> call (number 2) is
  answered at 10 ms, which arms timeout 3 for 5010 ms, and the client leaves at 20 ms.
  The timeout fires at 5010 ms.
\<close>

definition client_left :: "(nat \<times> event) list" where
  "client_left =
     [(0, Connection SYS 0),
      (10, Answer 2 (Cpu (JObj [(''hostname'', JV (JStr ''host'')), (''cpu'', JV (JNum 3))]))),
      (20, Disconnect SYS 0 ''transport close'')]"

definition trailing_tick :: "(nat \<times> event) list" where
  "trailing_tick = client_left @ [(5010, Fire 3)]"

text \<open>
  The state after the only system client has connected and left again while the first
  \<open>stat.cpuUsage\<close> call (number 2) is still in flight, on a transport with arrays.
\<close>

definition client_gone :: monitor where
  "client_gone =
     state_of (exec [(0, Connection SYS 0), (1, Disconnect SYS 0 ''transport close'')] (run AsArray 0 0))"

text \<open>
  After the call of the trigger at 100 ms: two more calls, at 300 and 700 ms, and a stale
  timer number in between; then timer 3, the timeout of the last call, is run at 1100,
  1250 and 1300 ms.
\<close>

definition burst_events :: "(nat \<times> event) list" where
  "burst_events = [(300, Pm2Event), (400, Fire 1), (700, Pm2Event)]"

definition after_fires :: "(nat \<times> event) list" where
  "after_fires = [(1100, Fire 3), (1250, Fire 3), (1300, Fire 3)]"

section \<open>Properties of the environment filter\<close>

lemma map_of_obj_set: "map_of (obj_set ps k v) = (map_of ps)(k \<mapsto> v)"
  by (induction ps) auto

lemma map_of_fold_copy:
  "map_of (fold (\<lambda>key acc. if ignored key then acc else obj_set acc key (obj_get src key)) ks acc) k =
     (if k \<in> set ks \<and> \<not> ignored k then Some (obj_get src k) else map_of acc k)"
  by (induction ks arbitrary: acc) (auto simp: map_of_obj_set)

lemma obj_get_present: "k \<in> fst ` set ps \<Longrightarrow> Some (obj_get ps k) = map_of ps k"
  by (cases "map_of ps k") (auto simp: obj_get_def map_of_eq_None_iff)

lemma ignored_iff:
  "ignored key \<longleftrightarrow>
     take 1 key = ''_'' \<or> take 4 key = ''axm_'' \<or> key = ''versioning'' \<or> key = ''command'' \<or>
     (key \<noteq> [] \<and> (of_char (hd key) :: nat) \<le> 90)"
  by (cases key) (auto simp: ignored_def)

lemma filter_env_map:
  "map_of (filter_env (Some env)) k =
     (if k \<in> fst ` set env \<and> \<not> ignored k then map_of env k
      else if k = ''user'' then Some (obj_get env ''USER'') else None)"
  by (simp add: filter_env_def map_of_fold_copy obj_get_present)

text \<open>
  C3, as the code has it. For every environment, the filtered environment holds every
  original key, with its original value, that does not start with \<open>_\<close> or \<open>axm_\<close>, is
  neither \<open>versioning\<close> nor \<open>command\<close>, and is empty or starts with a character whose
  code is above 90; beside these it holds \<open>user\<close> with the value of the raw \<open>USER\<close>
  (\<open>undefined\<close> when there is none), unless the environment has a key \<open>user\<close> of its
  own, whose value then stands; and it holds nothing else. The environment of the
  example yields exactly \<open>{user: 'alice', user_key: 'v'}\<close>.
\<close>

theorem filter_env_keeps:
  "map_of (filter_env (Some env)) k =
     (if k \<in> fst ` set env \<and> take 1 k \<noteq> ''_'' \<and> take 4 k \<noteq> ''axm_'' \<and> k \<noteq> ''versioning'' \<and>
         k \<noteq> ''command'' \<and> (k = [] \<or> 90 < (of_char (hd k) :: nat))
      then map_of env k
      else if k = ''user'' then Some (obj_get env ''USER'') else None)
   \<and> filter_env (Some example_env) = [(''user'', JV (JStr ''alice'')), (''user_key'', JV (JStr ''v''))]"
proof
  have "(\<not> ignored k) = (take 1 k \<noteq> ''_'' \<and> take 4 k \<noteq> ''axm_'' \<and> k \<noteq> ''versioning'' \<and>
         k \<noteq> ''command'' \<and> (k = [] \<or> 90 < (of_char (hd k) :: nat)))"
    by (auto simp: ignored_iff)
  then show "map_of (filter_env (Some env)) k =
     (if k \<in> fst ` set env \<and> take 1 k \<noteq> ''_'' \<and> take 4 k \<noteq> ''axm_'' \<and> k \<noteq> ''versioning'' \<and>
         k \<noteq> ''command'' \<and> (k = [] \<or> 90 < (of_char (hd k) :: nat))
      then map_of env k
      else if k = ''user'' then Some (obj_get env ''USER'') else None)"
    by (simp only: filter_env_map)
  show "filter_env (Some example_env) = [(''user'', JV (JStr ''alice'')), (''user_key'', JV (JStr ''v''))]"
    by code_simp
qed

text \<open>
  The theorem at the environment \<open>{USER: 'alice', user: 'bob'}\<close> and the keys \<open>user\<close>
  and \<open>USER\<close>: the original \<open>user\<close> stands, the upper-case key is dropped.
\<close>

theorem filter_env_keeps_witness:
  "map_of (filter_env (Some clash_env)) ''user'' = Some (JV (JStr ''bob'')) \<and>
   map_of (filter_env (Some clash_env)) ''USER'' = None"
  using filter_env_keeps [of clash_env "''user''"] filter_env_keeps [of clash_env "''USER''"]
  by (simp add: clash_env_def)

text \<open>
  C3 as stated fails: in \<open>{USER: 'alice', user: 'bob'}\<close> the key \<open>user\<close> of the result
  is not the copy of \<open>USER\<close>.
\<close>

theorem filter_env_user_counterexample:
  "map_of (filter_env (Some clash_env)) ''user'' \<noteq> Some (obj_get clash_env ''USER'')"
  by code_simp

section \<open>What the handlers leave alone\<close>

text \<open>
  No handler but the connection and the disconnection of a system socket changes the
  presence flag or the sockets of the system namespace, and none changes what the
  transport holds its sockets in.
\<close>

lemma presence_simps [simp]:
  "presence (add_timer a d rep now s) = presence s"
  "presence (clear_timer i s) = presence s"
  "presence (issue q s) = presence s"
  "presence (settle i s) = presence s"
  "presence (broadcast ev dat n s) = presence s"
  "presence (s\<lparr>throttle := x1\<rparr>) = presence s"
  "presence (s\<lparr>refreshed := x2\<rparr>) = presence s"
  "presence (s\<lparr>procs := x3\<rparr>) = presence s"
  "presence (s\<lparr>status := x4\<rparr>) = presence s"
  "presence (s\<lparr>sysStat := x5\<rparr>) = presence s"
  "presence (s\<lparr>sent := x6\<rparr>) = presence s"
  "presence (s\<lparr>tails := x7\<rparr>) = presence s"
  "presence (s\<lparr>usages := x8\<rparr>) = presence s"
  "presence (s\<lparr>killed := x9\<rparr>) = presence s"
  "presence (s\<lparr>timers := x10\<rparr>) = presence s"
  by (simp_all add: presence_def add_timer_def clear_timer_def issue_def settle_def broadcast_def Let_def)

lemma presence_throttleRefresh [simp]: "presence (throttleRefresh now s) = presence s"
  by (simp add: throttleRefresh_def Let_def split: option.splits)

lemma presence_refreshProcs [simp]: "presence (refreshProcs now s) = presence s"
  by (simp add: refreshProcs_def)

lemma presence_list_done [simp]: "presence (list_done r s) = presence s"
  by (simp add: list_done_def Let_def split: reply.splits)

lemma presence_nextTick [simp]: "presence (nextTick tick c s) = presence s"
  by (simp add: nextTick_def)

lemma presence_stat_done [simp]: "presence (stat_done now tick r s) = presence s"
  by (simp add: stat_done_def after_stat_def split: reply.splits)

lemma presence_sendProcs [simp]: "presence (sendProcs i s) = presence s"
  by (simp add: sendProcs_def split: option.splits)

lemma presence_action_done [simp]: "presence (action_done now i ident r s) = presence s"
  by (simp add: action_done_def split: reply.splits)

lemma presence_version_done [simp]: "presence (version_done i r s) = presence s"
  by (simp add: version_done_def Let_def)

lemma presence_update_socket [simp]: "n \<noteq> SYS \<Longrightarrow> presence (update_socket n i f s) = presence s"
  by (simp add: update_socket_def presence_def)

lemma presence_startTailProcess [simp]: "presence (startTailProcess i pm_id k s) = presence s"
  by (simp add: startTailProcess_def Let_def)

lemma presence_tail_opened [simp]: "presence (tail_opened pm_id k r s) = presence s"
  by (simp add: tail_opened_def emitError_log_def split: reply.splits option.splits)

lemma presence_killTail [simp]: "presence (killTail k s) = presence s"
  by (simp add: killTail_def presence_def split: option.splits)

lemma presence_fold_killTail [simp]:
  "presence (fold (\<lambda>k s'. if K k then s' else killTail k s') ks s) = presence s"
  by (induction ks arbitrary: s) simp_all

lemma presence_killTailProcess [simp]: "presence (killTailProcess pm_id s) = presence s"
  by (simp add: killTailProcess_def Let_def)

lemma presence_drop_usage [simp]: "presence (drop_usage k s) = presence s"
  by (simp add: drop_usage_def presence_def clear_timer_def split: option.splits)

lemma presence_fold_drop_usage [simp]:
  "presence (fold (\<lambda>k s'. if K k then s' else drop_usage k s') ks s) = presence s"
  by (induction ks arbitrary: s) simp_all

lemma presence_killObserver [simp]: "presence (state_of (killObserver s)) = presence s"
  by (simp add: killObserver_def split: sum.splits)

lemma presence_runObserver [simp]: "presence (state_of (runObserver now i pid s)) = presence s"
  by (simp add: runObserver_def Let_def split: sum.splits)

lemma presence_usage_done [simp]: "presence (state_of (usage_done now pid r s)) = presence s"
  by (simp add: usage_done_def split: reply.splits)

lemma presence_fire [simp]: "presence (fire now i s) = presence s"
  by (simp add: fire_def rearm_def expire_def split: option.splits timer_action.splits)

lemma presence_answer [simp]: "presence (state_of (answer now i r s)) = presence s"
  by (simp add: answer_def split: option.splits request.splits)

lemma presence_connectSysSock:
  "presence (connectSysSock i (join SYS i s)) = (shape s, False, sockets s SYS @ [new_socket i])"
  by (simp add: connectSysSock_def Let_def split: option.splits) (simp add: presence_def join_def)

lemma tracked_connectSysSock: "tracked (connectSysSock i (join SYS i s))"
  using presence_connectSysSock [of i s] by (simp add: tracked_def presence_def)


lemma presence_join [simp]: "n \<noteq> SYS \<Longrightarrow> presence (join n i s) = presence s"
  by (simp add: join_def presence_def)

lemma presence_leave [simp]: "n \<noteq> SYS \<Longrightarrow> presence (leave n i s) = presence s"
  by (simp add: leave_def presence_def)

lemma tracked_disconnectSysSock: "shape s = AsArray \<Longrightarrow> tracked (disconnectSysSock s)"
  by (simp add: disconnectSysSock_def tracked_def)

lemma shape_disconnectSysSock [simp]: "shape (disconnectSysSock s) = shape s"
  by (simp add: disconnectSysSock_def)

lemma shape_leave [simp]: "shape (leave n i s) = shape s"
  by (simp add: leave_def)


lemma presence_step:
  "(\<forall>i. e \<noteq> Connection SYS i) \<Longrightarrow> (\<forall>i reason. e \<noteq> Disconnect SYS i reason) \<Longrightarrow>
     presence (state_of (step now e s)) = presence s"
proof (cases e)
  case (Connection n i)
  then show "(\<forall>i. e \<noteq> Connection SYS i) \<Longrightarrow> presence (state_of (step now e s)) = presence s"
    by (cases n) simp_all
next
  case (Disconnect n i reason)
  then show "(\<forall>i reason. e \<noteq> Disconnect SYS i reason) \<Longrightarrow> presence (state_of (step now e s)) = presence s"
    by (cases n) simp_all
qed simp_all

lemma shape_step [simp]: "shape (state_of (step now e s)) = shape s"
proof -
  consider i where "e = Connection SYS i" | i reason where "e = Disconnect SYS i reason"
    | "(\<forall>i. e \<noteq> Connection SYS i)" "(\<forall>i reason. e \<noteq> Disconnect SYS i reason)"
    by blast
  then show ?thesis
  proof cases
    case 1
    with presence_connectSysSock [of i s] show ?thesis by (simp add: presence_def)
  next
    case 2
    then show ?thesis by simp
  next
    case 3
    then have "presence (state_of (step now e s)) = presence s" by (rule presence_step)
    then show ?thesis by (simp add: presence_def)
  qed
qed

lemma shape_exec [simp]: "shape (state_of (exec es s)) = shape s"
proof (induction es arbitrary: s)
  case Nil
  then show ?case by simp
next
  case (Cons p es)
  obtain t e where p: "p = (t, e)" by (cases p)
  have "shape (state_of (step t e s)) = shape s" by simp
  with Cons.IH p show ?case by (cases "step t e s") simp_all
qed

lemma shape_run [simp]: "shape (run k r now) = k"
  by (simp add: run_def throttleRefresh_def add_timer_def Let_def)

text \<open>
  On a transport with arrays the flag is recomputed from the sockets at every
  disconnection: it says whether the system namespace is empty.
\<close>

lemma tracked_step: "shape s = AsArray \<Longrightarrow> tracked s \<Longrightarrow> tracked (state_of (step now e s))"
proof -
  assume arr: "shape s = AsArray" and inv: "tracked s"
  consider i where "e = Connection SYS i" | i reason where "e = Disconnect SYS i reason"
    | "(\<forall>i. e \<noteq> Connection SYS i)" "(\<forall>i reason. e \<noteq> Disconnect SYS i reason)"
    by blast
  then show ?thesis
  proof cases
    case 1
    with inv show ?thesis by (simp add: tracked_connectSysSock)
  next
    case 2
    with inv arr show ?thesis by (simp add: tracked_disconnectSysSock)
  next
    case 3
    then have "presence (state_of (step now e s)) = presence s" by (rule presence_step)
    with inv show ?thesis by (simp add: tracked_def presence_def)
  qed
qed

lemma state_of_exec_Cons:
  "state_of (exec ((t, e) # es) s) =
     (case step t e s of Done s' \<Rightarrow> state_of (exec es s') | Threw err s' \<Rightarrow> s')"
  by (simp split: outcome.splits)

lemma tracked_exec: "shape s = AsArray \<Longrightarrow> tracked s \<Longrightarrow> tracked (state_of (exec es s))"
proof (induction es arbitrary: s)
  case Nil
  then show ?case by simp
next
  case (Cons p es)
  obtain t e where p: "p = (t, e)" by (cases p)
  from Cons.prems have "tracked (state_of (step t e s))" by (rule tracked_step)
  moreover have "shape (state_of (step t e s)) = AsArray" using Cons.prems(1) by simp
  ultimately show ?case using Cons.IH p by (cases "step t e s") simp_all
qed

lemma tracked_run: "tracked (run k r now)"
  by (simp add: run_def tracked_def throttleRefresh_def add_timer_def Let_def)

text \<open>
  On a transport with objects the flag, once a system connection has cleared it, is
  never set again.
\<close>

lemma clear_step:
  "shape s = AsObject \<Longrightarrow> \<not> noClient s \<Longrightarrow> \<not> noClient (state_of (step now e s))"
proof -
  assume obj: "shape s = AsObject" and clear: "\<not> noClient s"
  consider i where "e = Connection SYS i" | i reason where "e = Disconnect SYS i reason"
    | "(\<forall>i. e \<noteq> Connection SYS i)" "(\<forall>i reason. e \<noteq> Disconnect SYS i reason)"
    by blast
  then show ?thesis
  proof cases
    case 1
    with clear presence_connectSysSock [of i s] show ?thesis by (simp add: presence_def)
  next
    case 2
    with clear obj show ?thesis by (simp add: disconnectSysSock_def)
  next
    case 3
    then have "presence (state_of (step now e s)) = presence s" by (rule presence_step)
    with clear show ?thesis by (simp add: presence_def)
  qed
qed

lemma clear_exec:
  "shape s = AsObject \<Longrightarrow> \<not> noClient s \<Longrightarrow> \<not> noClient (state_of (exec es s))"
proof (induction es arbitrary: s)
  case Nil
  then show ?case by simp
next
  case (Cons p es)
  obtain t e where p: "p = (t, e)" by (cases p)
  from Cons.prems have "\<not> noClient (state_of (step t e s))" by (rule clear_step)
  moreover have "shape (state_of (step t e s)) = AsObject" using Cons.prems(1) by simp
  ultimately show ?case using Cons.IH p by (cases "step t e s") simp_all
qed

section \<open>Properties of _broadcast\<close>

text \<open>
  On a transport with arrays the flag is set whenever the system namespace is empty: in
  every state reached from \<open>run\<close> with no system socket, \<open>_broadcast\<close> of any event
  to any namespace changes nothing.
\<close>

lemma broadcast_on_arrays:
  "sockets (state_of (exec es (run AsArray r t0))) SYS = [] \<Longrightarrow>
     broadcast ev d n (state_of (exec es (run AsArray r t0))) = state_of (exec es (run AsArray r t0))"
  using tracked_exec [OF _ tracked_run, of AsArray r t0 es] by (simp add: tracked_def broadcast_def)

text \<open>
  On a transport with objects the flag stays clear once a system client has connected,
  whoever leaves afterwards: every later broadcast is delivered.
\<close>

lemma broadcast_on_objects:
  assumes "shape s = AsObject" and "\<not> noClient s"
  shows "emitted (broadcast ev d n (state_of (exec es s))) =
           emitted (state_of (exec es s)) @ [(case n of None \<Rightarrow> SYS | Some t \<Rightarrow> t, ev, d)]"
  using clear_exec [OF assms, of es] by (simp add: broadcast_def)

text \<open>
  C2 at the failing input, on a transport that holds the sockets of a namespace in an
  object. A system client and a log client connect, the log client asks for the tail of
  process 42 and the system client leaves: the disconnect handler computes
  \<open>undefined == 0\<close> and leaves the flag clear. When \<open>pm.tail\<close> then reports that there
  is no log, the error is broadcast to the log namespace although no socket is connected
  to the system namespace. Nothing had been broadcast before.
\<close>

theorem broadcast_without_sys_client:
  "(case exec sys_left (run AsObject 0 0) of
      Done s \<Rightarrow> sockets s SYS = [] \<and> noClient s = False \<and> emitted s = []
    | Threw e s \<Rightarrow> False) \<and>
   (case exec no_log_found (run AsObject 0 0) of
      Done s \<Rightarrow>
        sockets s SYS = [] \<and> map sock_id (sockets s LOG) = [1] \<and>
        emitted s = [(LOG, ''log'', no_log_payload)]
    | Threw e s \<Rightarrow> False)"
  by code_simp

section \<open>Properties of the registries\<close>


text \<open>Nothing is registered or requested under an inherited name.\<close>

lemma own_names_fields:
  "tails s' = tails s \<Longrightarrow> usages s' = usages s \<Longrightarrow> pending s' = pending s \<Longrightarrow>
     own_names s' = own_names s"
  by (simp add: own_names_def)


lemma own_names_add_timer: "own_names (add_timer a d rep now s) = own_names s"
  by (simp add: own_names_def add_timer_def)

lemma own_names_clear_timer: "own_names (clear_timer i s) = own_names s"
  by (simp add: own_names_def clear_timer_def)





lemma own_names_refreshProcs: "own_names s \<Longrightarrow> own_names (refreshProcs now s)"
  by (simp add: refreshProcs_def own_names_def issue_def)


lemma own_names_nextTick: "own_names s \<Longrightarrow> own_names (nextTick tick c s)"
  by (simp add: nextTick_def own_names_def issue_def)



























section \<open>Properties of the sweeps and of the usage observers\<close>














text \<open>
  On a transport with arrays killObserver reads \<open>sock.pid\<close>, which is \<open>undefined\<close> on
  the sockets this file handles: with a socket left in the namespace the sweep throws
  before it deletes anything.
\<close>

lemma killObserver_throws:
  assumes "shape s = AsArray" and "sockets s PROC = k # ks" and "prop_pid k = JUndefined"
  shows "killObserver s = Threw TypeError s"
  using assms by (simp add: killObserver_def)











text \<open>
  On a transport with arrays the sweep of the log namespace keeps the handles a
  connected socket asked for last (lemma \<open>tail_sweep\<close>), and the sweep of the process
  namespace throws with a socket left (lemma \<open>killObserver_throws\<close>): after the first
  of the two process sockets has left, both timers are still registered and armed.
\<close>

lemma first_observer_leaves_array:
  "(case exec first_observer_leaves (run AsArray 0 0) of
      Done s \<Rightarrow> False
    | Threw e s \<Rightarrow>
        e = TypeError \<and> map fst (usages s) = [''100'', ''200''] \<and>
        map tag_pid (sockets s PROC) = [JNum 200] \<and>
        map act (timers s) = [RefreshProcs, RunTimer (JNum 100), RunTimer (JNum 200)])"
  by code_simp

text \<open>Every failed sample ends in the ReferenceError, whatever the state.\<close>

lemma failed_sample_always_throws:
  "map_of (pending s) i = Some (PidUsage pid) \<Longrightarrow>
     step now (Answer i (Failed m)) s = Threw ReferenceError (settle i s)"
  by (simp add: answer_def usage_done_def)

text \<open>
  C6 at the failing input, on either transport. The first sample of pid 100 fails while
  a system client is connected: the callback throws a ReferenceError, the timer of pid
  100 stays in the registry and armed, and nothing is broadcast.
\<close>

theorem failed_sample_throws:
  "(case exec failed_sample (run k 0 0) of
      Done s \<Rightarrow> False
    | Threw e s \<Rightarrow>
        e = ReferenceError \<and> map fst (usages s) = [''100''] \<and>
        map act (timers s) = [RefreshProcs, RunTimer (JNum 100)] \<and>
        emitted s = [] \<and> noClient s = False)"
proof (cases k)
  case AsArray
  show ?thesis unfolding AsArray by code_simp
next
  case AsObject
  show ?thesis unfolding AsObject by code_simp
qed

section \<open>Properties of the connection strings\<close>

lemma with_http_nonempty: "with_http t \<noteq> []"
  by (auto simp: with_http_def has_http_prefix_def lower_def)

lemma parse_fields:
  "parseConnectionString parse s =
     (case parse (with_http (snd (split_auth s))) of
        Inl err \<Rightarrow> Inl err
      | Inr u \<Rightarrow>
          Inr ((fst (split_auth s))
                 \<lparr>hostname := url_hostname u,
                  port := (case url_port u of None \<Rightarrow> JNull | Some p \<Rightarrow> JStr p),
                  path := Some (trimLeft (url_path u)),
                  protocol := url_protocol u\<rparr>))"
  by (cases "split_auth s")
     (simp add: parseConnectionString_def with_http_nonempty Let_def split: sum.splits)

text \<open>
  C7 at the failing inputs. Whatever \<open>url.parse\<close> does and whatever the string is, the
  string given to \<open>url.parse\<close> is never empty: parseConnectionString throws what
  \<open>url.parse\<close> throws, and when it returns, the port and the hostname of the result are
  those of \<open>url.parse\<close>, never the 8088 and the loopback address the function starts
  from. So \<open>example.com\<close>, which has no port, decodes to the port \<open>null\<close>, and the
  empty string decodes to the port \<open>null\<close> and an empty hostname.
\<close>

theorem parse_defaults_overwritten:
  "map_sum id port (parseConnectionString parse s) =
     map_sum id (\<lambda>u. case url_port u of None \<Rightarrow> JNull | Some p \<Rightarrow> JStr p)
       (parse (with_http (snd (split_auth s)))) \<and>
   map_sum id port (parseConnectionString parse s) \<noteq> Inr (JNum 8088) \<and>
   map_sum id hostname (parseConnectionString parse s) =
     map_sum id url_hostname (parse (with_http (snd (split_auth s)))) \<and>
   parseConnectionString plain_parse ''example.com'' =
     Inr \<lparr>protocol = Some ''http:'', hostname = Some ''example.com'', port = JNull,
          path = Some [], namespace = None, authorization = Some []\<rparr> \<and>
   parseConnectionString plain_parse [] =
     Inr \<lparr>protocol = Some ''http:'', hostname = Some [], port = JNull,
          path = Some [], namespace = None, authorization = Some []\<rparr>"
proof -
  have "parseConnectionString plain_parse ''example.com'' =
     Inr \<lparr>protocol = Some ''http:'', hostname = Some ''example.com'', port = JNull,
          path = Some [], namespace = None, authorization = Some []\<rparr>"
    by code_simp
  moreover have "parseConnectionString plain_parse [] =
     Inr \<lparr>protocol = Some ''http:'', hostname = Some [], port = JNull,
          path = Some [], namespace = None, authorization = Some []\<rparr>"
    by code_simp
  ultimately show ?thesis
    by (simp add: parse_fields split: sum.splits option.splits)
qed

text \<open>The third part of C7 holds: without an \<open>@\<close> the authorization is empty.\<close>

lemma last_index_of_None: "last_index_of c t = None \<longleftrightarrow> c \<notin> set t"
  by (induction t) (auto split: option.splits)

lemma parse_no_at:
  "CHR ''@'' \<notin> set s \<Longrightarrow> parseConnectionString parse s = Inr c \<Longrightarrow> authorization c = Some []"
  using last_index_of_None [of "CHR ''@''" s]
  by (auto simp: parse_fields split_auth_def default_connection_def split: sum.splits)

section \<open>Properties of connect\<close>

lemma call_once_flagged:
  "called w f \<Longrightarrow> called (call_once g e w) f \<and> invocations f (call_once g e w) = invocations f w"
  by (auto simp: call_once_def Let_def invocations_def)

lemma socket_event_flagged:
  "called w f \<Longrightarrow> called (socket_event su fa e w) f \<and>
     invocations f (socket_event su fa e w) = invocations f w"
  by (cases e) (simp_all add: call_once_flagged)

lemma socket_events_flagged:
  "called w f \<Longrightarrow> invocations f (socket_events su fa es w) = invocations f w"
  unfolding socket_events_def
  by (induction es arbitrary: w) (simp_all add: socket_event_flagged)

lemma call_once_first:
  "invocations f (call_once g e w) \<le> Suc (invocations f w) \<and>
   (invocations f (call_once g e w) = invocations f w \<or> called (call_once g e w) f)"
  by (simp add: call_once_def Let_def invocations_def)

lemma socket_event_first:
  "invocations f (socket_event su fa e w) \<le> Suc (invocations f w) \<and>
   (invocations f (socket_event su fa e w) = invocations f w \<or> called (socket_event su fa e w) f)"
  by (cases e) (simp_all add: call_once_first)

lemma socket_events_once:
  "invocations f (socket_events su fa es w) \<le> Suc (invocations f w)"
proof (induction es arbitrary: w)
  case Nil
  then show ?case by (simp add: socket_events_def)
next
  case (Cons e es)
  let ?w = "socket_event su fa e w"
  have unfold: "socket_events su fa (e # es) w = socket_events su fa es ?w"
    by (simp add: socket_events_def)
  from socket_event_first [of f su fa e w]
  consider "invocations f ?w = invocations f w"
    | "called ?w f" "invocations f ?w \<le> Suc (invocations f w)"
    by blast
  then show ?case
  proof cases
    case 1
    with Cons.IH [of ?w] unfold show ?thesis by simp
  next
    case 2
    with socket_events_flagged [of ?w f su fa es] unfold show ?thesis by simp
  qed
qed

text \<open>
  C10. Whatever events the socket emits, in whatever number and order, and whatever the
  flags were before, every function object, so the success callback and the failure
  callback, is invoked at most once more; and \<open>connect\<close> on options whose port is
  missing (or otherwise falsy) throws and leaves the client as it was, with no URI
  handed to the socket.io client.
\<close>

theorem connect_calls_once:
  "invocations f (socket_events success failure es w) \<le> Suc (invocations f w) \<and>
   (\<not> truthy (port opts) \<longrightarrow> connect opts w = Threw PortRequired w)"
  by (simp add: socket_events_once connect_def)

text \<open>
  The theorem for the callbacks 1 and 2 on a socket that connects twice and fails twice,
  and for options without a port.
\<close>

theorem connect_calls_once_witness:
  "invocations 1 (socket_events 1 2 [OnConnect, OnError ''x'', OnConnect, OnConnectError ''y''] idle_client) \<le> 1 \<and>
   invocations 2 (socket_events 1 2 [OnConnect, OnError ''x'', OnConnect, OnConnectError ''y''] idle_client) \<le> 1 \<and>
   connect no_port idle_client = Threw PortRequired idle_client"
  using
    connect_calls_once [of 1 1 2 "[OnConnect, OnError ''x'', OnConnect, OnConnectError ''y'']" idle_client no_port]
    connect_calls_once [of 2 1 2 "[OnConnect, OnError ''x'', OnConnect, OnConnectError ''y'']" idle_client no_port]
  by (simp add: idle_client_def no_port_def invocations_def)

section \<open>Properties of startTailProcess\<close>

lemma filter_obj_set_new:
  "map_of ps k = None \<Longrightarrow> filter (\<lambda>p. fst p = k) (obj_set ps k v) = [(k, v)]"
  by (induction ps) (auto split: if_splits)

text \<open>
  Once a handle is registered for the pm_id, startTailProcess only tags the socket: the
  registry and the calls in flight stay as they are.
\<close>

lemma startTailProcess_registered:
  "map_of (tails s) (to_str pm_id) \<noteq> None \<Longrightarrow>
     startTailProcess i pm_id keepANSI s = update_socket LOG i (\<lambda>k. k\<lparr>tag_pm_id := pm_id\<rparr>) s"
  by (simp add: startTailProcess_def update_socket_def holds_def Let_def)

text \<open>
  The handle is registered by the callback of \<open>pm.tail\<close>. A second call that comes
  before the callback of the first finds no handle and issues a second request, for any
  pm_id whose name is not an inherited one.
\<close>

lemma startTailProcess_before_callback:
  "\<not> holds (tails s) (to_str pm_id) \<Longrightarrow>
     pending (startTailProcess j pm_id k' (startTailProcess i pm_id k s)) =
       pending s @ [(next_id s, PmTail pm_id k), (Suc (next_id s), PmTail pm_id k')]"
  by (simp add: startTailProcess_def update_socket_def issue_def Let_def)

text \<open>
  C9 at the failing input, on either transport. A log socket asks for the tail of
  process 42 twice before \<open>pm.tail\<close> has called back: both calls pass the guard and two
  requests are in flight. The callbacks hand over the handles 7 and 8; the second
  assignment to \<open>self._tails[42]\<close> overwrites the first, so two tails of process 42 are
  open, one of them registered, and none has been killed. When the socket leaves, the
  sweep kills handle 8; handle 7 is in no registry and is never killed.
\<close>

theorem second_call_before_callback:
  "(case exec asked_twice (run k 0 0) of
      Done s \<Rightarrow> map snd (pending s) = [PmTail (JNum 42) False, PmTail (JNum 42) False] \<and> tails s = []
    | Threw e s \<Rightarrow> False) \<and>
   (case exec both_opened (run k 0 0) of
      Done s \<Rightarrow> tails s = [(''42'', 8)] \<and> killed s = [] \<and> pending s = []
    | Threw e s \<Rightarrow> False) \<and>
   (case exec then_left (run k 0 0) of
      Done s \<Rightarrow> tails s = [] \<and> killed s = [8] \<and> sockets s LOG = []
    | Threw e s \<Rightarrow> False)"
proof (cases k)
  case AsArray
  show ?thesis unfolding AsArray by code_simp
next
  case AsObject
  show ?thesis unfolding AsObject by code_simp
qed

section \<open>Properties of the heartbeat\<close>

text \<open>Every handler but the connection of a system socket leaves a resting heartbeat at rest.\<close>

lemma idle_fields:
  "status s' = status s \<Longrightarrow> pending s' = pending s \<Longrightarrow> timers s' = timers s \<Longrightarrow> idle s' = idle s"
  by (simp add: idle_def)

lemma idle_add_timer: "\<not> is_tick a \<Longrightarrow> idle s \<Longrightarrow> idle (add_timer a d rep now s)"
  by (simp add: idle_def add_timer_def)

lemma idle_clear_timer: "idle s \<Longrightarrow> idle (clear_timer i s)"
  by (simp add: idle_def clear_timer_def filter_empty_conv)

lemma idle_issue: "\<not> is_cpu q \<Longrightarrow> idle s \<Longrightarrow> idle (issue q s)"
  by (simp add: idle_def issue_def)

lemma idle_settle: "idle s \<Longrightarrow> idle (settle i s)"
  by (simp add: idle_def settle_def filter_empty_conv)

lemma idle_broadcast: "idle (broadcast ev dat n s) = idle s"
  by (simp add: idle_def broadcast_def Let_def)

lemma idle_throttleRefresh: "idle s \<Longrightarrow> idle (throttleRefresh now s)"
  by (auto simp: throttleRefresh_def Let_def idle_def add_timer_def clear_timer_def filter_empty_conv
      split: option.splits)

lemma idle_refreshProcs: "idle s \<Longrightarrow> idle (refreshProcs now s)"
  by (simp add: refreshProcs_def idle_def issue_def)

lemma idle_list_done: "idle s \<Longrightarrow> idle (list_done r s)"
  by (simp add: list_done_def Let_def idle_def broadcast_def split: reply.splits)

lemma idle_sendProcs: "idle (sendProcs i s) = idle s"
  by (simp add: sendProcs_def idle_def split: option.splits)

lemma idle_action_done: "idle s \<Longrightarrow> idle (action_done now i ident r s)"
  by (simp add: action_done_def idle_throttleRefresh split: reply.splits) (simp add: idle_def)

lemma idle_version_done: "idle (version_done i r s) = idle s"
  by (simp add: version_done_def Let_def idle_def)

lemma idle_update_socket: "idle (update_socket n i f s) = idle s"
  by (simp add: update_socket_def idle_def)

lemma idle_startTailProcess: "idle s \<Longrightarrow> idle (startTailProcess i pm_id k s)"
  by (simp add: startTailProcess_def Let_def idle_update_socket idle_issue)

lemma idle_tail_opened: "idle s \<Longrightarrow> idle (tail_opened pm_id k r s)"
  by (simp add: tail_opened_def emitError_log_def idle_broadcast split: reply.splits option.splits)
     (simp add: idle_def)

lemma idle_killTail: "idle (killTail k s) = idle s"
  by (simp add: killTail_def idle_def split: option.splits)

lemma idle_fold_killTail:
  "idle (fold (\<lambda>k s'. if K k then s' else killTail k s') ks s) = idle s"
  by (induction ks arbitrary: s) (simp_all add: idle_killTail)

lemma idle_killTailProcess: "idle (killTailProcess pm_id s) = idle s"
  by (simp add: killTailProcess_def Let_def idle_killTail idle_fold_killTail)

lemma idle_drop_usage: "idle s \<Longrightarrow> idle (drop_usage k s)"
  by (simp add: drop_usage_def idle_def clear_timer_def filter_empty_conv split: option.splits)

lemma idle_fold_drop_usage:
  "idle s \<Longrightarrow> idle (fold (\<lambda>k s'. if K k then s' else drop_usage k s') ks s)"
  by (induction ks arbitrary: s) (simp_all add: idle_drop_usage)

lemma idle_killObserver: "idle s \<Longrightarrow> idle (state_of (killObserver s))"
  by (simp add: killObserver_def idle_fold_drop_usage split: sum.splits)

lemma idle_runObserver: "idle s \<Longrightarrow> idle (state_of (runObserver now i pid s))"
  by (simp add: runObserver_def Let_def idle_update_socket split: sum.splits)
     (simp add: idle_def issue_def add_timer_def update_socket_def)

lemma idle_usage_done: "idle s \<Longrightarrow> idle (state_of (usage_done now pid r s))"
  by (simp add: usage_done_def idle_broadcast split: reply.splits)

lemma find_Some_set: "find P xs = Some x \<Longrightarrow> x \<in> set xs \<and> P x"
  by (induction xs) (auto split: if_splits)

lemma idle_rearm: "idle s \<Longrightarrow> idle (rearm now t s)"
  by (auto simp: rearm_def idle_def clear_timer_def filter_empty_conv split: option.splits)

lemma idle_expire: "\<not> is_tick a \<Longrightarrow> idle s \<Longrightarrow> idle (expire now a s)"
  by (cases a) (simp_all add: expire_def idle_def refreshProcs_def issue_def)

lemma idle_fire: "idle s \<Longrightarrow> idle (fire now i s)"
proof (cases "find (\<lambda>t. t_id t = i) (timers s)")
  case None
  then show "idle s \<Longrightarrow> ?thesis" by (simp add: fire_def)
next
  case (Some t)
  assume inv: "idle s"
  from Some have "t \<in> set (timers s)" by (auto dest: find_Some_set)
  with inv have "\<not> is_tick (act t)" by (auto simp: idle_def filter_empty_conv)
  with inv Some show ?thesis
    by (simp add: fire_def idle_rearm idle_expire)
qed

lemma idle_answer: "idle s \<Longrightarrow> idle (state_of (answer now i r s))"
proof (cases "map_of (pending s) i")
  case None
  then show "idle s \<Longrightarrow> ?thesis" by (simp add: answer_def)
next
  case (Some q)
  assume inv: "idle s"
  from Some have "(i, q) \<in> set (pending s)" by (rule map_of_SomeD)
  with inv have nq: "\<not> is_cpu q" by (auto simp: idle_def filter_empty_conv)
  from inv have "idle (settle i s)" by (rule idle_settle)
  with nq Some inv show ?thesis
    by (cases q)
       (simp_all add: answer_def idle_list_done idle_tail_opened idle_usage_done
          idle_version_done idle_action_done)
qed

lemma idle_join: "idle (join n i s) = idle s"
  by (simp add: join_def idle_def)

lemma idle_leave: "idle (leave n i s) = idle s"
  by (simp add: leave_def idle_def)

lemma idle_disconnectSysSock: "idle (disconnectSysSock s) = idle s"
  by (simp add: disconnectSysSock_def idle_def)

lemma idle_step: "\<not> is_sys_connection e \<Longrightarrow> idle s \<Longrightarrow> idle (state_of (step now e s))"
proof (cases e)
  case (Connection n i)
  then show "\<not> is_sys_connection e \<Longrightarrow> idle s \<Longrightarrow> ?thesis"
    by (cases n) (simp_all add: idle_join)
next
  case (Disconnect n i reason)
  then show "idle s \<Longrightarrow> ?thesis"
    by (cases n)
       (simp_all add: idle_leave idle_disconnectSysSock idle_killTailProcess idle_killObserver)
qed (simp_all add: idle_issue idle_sendProcs idle_startTailProcess idle_killTailProcess
       idle_runObserver idle_throttleRefresh idle_fire idle_answer)

lemma idle_exec:
  "list_all (\<lambda>p. \<not> is_sys_connection (snd p)) es \<Longrightarrow> idle s \<Longrightarrow> idle (state_of (exec es s))"
proof (induction es arbitrary: s)
  case Nil
  then show ?case by simp
next
  case (Cons p es)
  obtain t e where p: "p = (t, e)" by (cases p)
  with Cons.prems have "idle (state_of (step t e s))" by (simp add: idle_step)
  with Cons.IH Cons.prems p show ?case by (cases "step t e s") simp_all
qed

lemma idle_run: "idle (run k r now)"
  by (simp add: run_def idle_def throttleRefresh_def add_timer_def Let_def)

text \<open>
  The steps of the heartbeat, one by one. An answer to the system-stat call of a tick
  stops the loop when the flag is set and arms one timeout otherwise.
\<close>

lemma tick_answered:
  assumes "map_of (pending s) i = Some (CpuUsage tick)" and "fits (CpuUsage tick) rep"
  shows "step now (Answer i rep) s = Done (state_of (step now (Answer i rep) s)) \<and>
         (if noClient s
          then status (state_of (step now (Answer i rep) s)) = None \<and>
               timers (state_of (step now (Answer i rep) s)) = timers s
          else status (state_of (step now (Answer i rep) s)) = status s \<and>
               timers (state_of (step now (Answer i rep) s)) =
                 timers s @ [\<lparr>t_id = next_id s, due = now + tick, every = None, act = NextTick tick\<rparr>]) \<and>
         pending (state_of (step now (Answer i rep) s)) = filter (\<lambda>p. fst p \<noteq> i) (pending s)"
  using assms
  by (cases rep)
     (simp_all add: answer_def stat_done_def after_stat_def broadcast_def settle_def
        add_timer_def)

text \<open>The timeout of a tick, once due, runs the next tick whoever is connected.\<close>

lemma tick_fired:
  assumes "find (\<lambda>t. t_id t = j) (timers s) =
             Some \<lparr>t_id = j, due = d, every = None, act = NextTick tick\<rparr>"
    and "d \<le> now"
  shows "status (state_of (step now (Fire j) s)) = Some ''R'' \<and>
         pending (state_of (step now (Fire j) s)) = pending s @ [(next_id s, CpuUsage tick)] \<and>
         timers (state_of (step now (Fire j) s)) = filter (\<lambda>t. t_id t \<noteq> j) (timers s) \<and>
         sockets (state_of (step now (Fire j) s)) = sockets s"
  using assms
  by (simp add: fire_def rearm_def expire_def nextTick_def issue_def clear_timer_def)

text \<open>A connection to the system namespace while the loop is stopped starts it.\<close>

lemma tick_started:
  assumes "status s \<noteq> Some ''R''" and "\<not> connected SYS j s"
  shows "status (state_of (step now (Connection SYS j) s)) = Some ''R'' \<and>
         noClient (state_of (step now (Connection SYS j) s)) = False \<and>
         timers (state_of (step now (Connection SYS j) s)) = timers s \<and>
         pending (state_of (step now (Connection SYS j) s)) =
           pending s @ [(next_id s, PmVersion j), (Suc (next_id s), CpuUsage (interval s))] \<and>
         interval s = (if opt_refresh s = 0 then 5000 else opt_refresh s)"
  using assms
  by (simp add: connectSysSock_def Let_def sendProcs_def issue_def broadcast_def nextTick_def
        interval_def join_def split: option.splits)

text \<open>
  On a transport with objects the flag is never set again once a client has connected,
  so from then on every answered tick arms the next one: the loop does not stop.
\<close>

lemma heartbeat_on_objects:
  assumes "shape s = AsObject" and "\<not> noClient s"
    and "map_of (pending (state_of (exec es s))) i = Some (CpuUsage tick)"
    and "fits (CpuUsage tick) rep"
  shows "timers (state_of (step now (Answer i rep) (state_of (exec es s)))) =
           timers (state_of (exec es s)) @
             [\<lparr>t_id = next_id (state_of (exec es s)), due = now + tick, every = None,
               act = NextTick tick\<rparr>]"
  using tick_answered [OF assms(3,4), of now] clear_exec [OF assms(1,2), of es] by simp

text \<open>
  C8, as the code has it. (1) As long as no client of the system namespace connects,
  whatever else happens after \<open>run\<close>, the heartbeat is at rest: the status is unset, no
  system-stat call is in flight and no tick is scheduled. (2) When the system-stat call
  of a tick is answered, with a result or with an error, and the flag \<open>_noClient\<close> is
  set, the status is deleted and no timer is armed; when the flag is clear, one timeout
  of \<open>tick\<close> ms is armed for the next tick. (3) That timeout, once it is due, starts
  the next system-stat call whether or not a client is still connected. (4) A connection
  to the system namespace while the status is not \<open>R\<close> sets it to \<open>R\<close> and starts a
  tick at once, whose interval is \<open>options.refresh\<close>, or 5000 when that is absent or
  zero. (5) On a transport with arrays the flag is set exactly when no socket is connected
  to the system namespace, in every state reached from \<open>run\<close>.
\<close>

theorem heartbeat_by_flag:
  "(list_all (\<lambda>p. \<not> is_sys_connection (snd p)) es \<longrightarrow> idle (state_of (exec es (run k r t0)))) \<and>
   (map_of (pending s) i = Some (CpuUsage tick) \<and> fits (CpuUsage tick) rep \<longrightarrow>
      (let s' = state_of (step now (Answer i rep) s)
       in step now (Answer i rep) s = Done s' \<and>
          (if noClient s then status s' = None \<and> timers s' = timers s
           else status s' = status s \<and>
                timers s' = timers s @ [\<lparr>t_id = next_id s, due = now + tick, every = None, act = NextTick tick\<rparr>]) \<and>
          pending s' = filter (\<lambda>p. fst p \<noteq> i) (pending s))) \<and>
   (find (\<lambda>t. t_id t = j) (timers v) = Some \<lparr>t_id = j, due = d, every = None, act = NextTick tock\<rparr> \<and>
    d \<le> at \<longrightarrow>
      (let v' = state_of (step at (Fire j) v)
       in status v' = Some ''R'' \<and> pending v' = pending v @ [(next_id v, CpuUsage tock)] \<and>
          timers v' = filter (\<lambda>t. t_id t \<noteq> j) (timers v) \<and> sockets v' = sockets v)) \<and>
   (status u \<noteq> Some ''R'' \<and> \<not> connected SYS c u \<longrightarrow>
      (let u' = state_of (step now' (Connection SYS c) u)
       in status u' = Some ''R'' \<and> noClient u' = False \<and> timers u' = timers u \<and>
          pending u' = pending u @ [(next_id u, PmVersion c), (Suc (next_id u), CpuUsage (interval u))] \<and>
          interval u = (if opt_refresh u = 0 then 5000 else opt_refresh u))) \<and>
   noClient (state_of (exec es' (run AsArray r' t0'))) =
     (sockets (state_of (exec es' (run AsArray r' t0'))) SYS = [])"
proof (intro conjI impI)
  assume "list_all (\<lambda>p. \<not> is_sys_connection (snd p)) es"
  then show "idle (state_of (exec es (run k r t0)))"
    using idle_run by (rule idle_exec)
next
  assume "map_of (pending s) i = Some (CpuUsage tick) \<and> fits (CpuUsage tick) rep"
  then show "let s' = state_of (step now (Answer i rep) s)
       in step now (Answer i rep) s = Done s' \<and>
          (if noClient s then status s' = None \<and> timers s' = timers s
           else status s' = status s \<and>
                timers s' = timers s @ [\<lparr>t_id = next_id s, due = now + tick, every = None, act = NextTick tick\<rparr>]) \<and>
          pending s' = filter (\<lambda>p. fst p \<noteq> i) (pending s)"
    unfolding Let_def using tick_answered [of s i tick rep now] by blast
next
  assume "find (\<lambda>t. t_id t = j) (timers v) = Some \<lparr>t_id = j, due = d, every = None, act = NextTick tock\<rparr> \<and>
    d \<le> at"
  then show "let v' = state_of (step at (Fire j) v)
       in status v' = Some ''R'' \<and> pending v' = pending v @ [(next_id v, CpuUsage tock)] \<and>
          timers v' = filter (\<lambda>t. t_id t \<noteq> j) (timers v) \<and> sockets v' = sockets v"
    unfolding Let_def using tick_fired [of j v d tock at] by blast
next
  assume "status u \<noteq> Some ''R'' \<and> \<not> connected SYS c u"
  then show "let u' = state_of (step now' (Connection SYS c) u)
       in status u' = Some ''R'' \<and> noClient u' = False \<and> timers u' = timers u \<and>
          pending u' = pending u @ [(next_id u, PmVersion c), (Suc (next_id u), CpuUsage (interval u))] \<and>
          interval u = (if opt_refresh u = 0 then 5000 else opt_refresh u)"
    unfolding Let_def using tick_started [of u c now'] by blast
next
  show "noClient (state_of (exec es' (run AsArray r' t0'))) =
     (sockets (state_of (exec es' (run AsArray r' t0'))) SYS = [])"
    using tracked_exec [OF _ tracked_run, of AsArray r' t0' es'] by (simp add: tracked_def)
qed

text \<open>
  The theorem on a run without system clients; on the answer to the tick whose client
  has left, on a transport with arrays; on the timeout that was armed before the only
  client left; and on the next connection to the system namespace, with no
  \<open>options.refresh\<close>.
\<close>

theorem heartbeat_by_flag_witness:
  "idle (state_of (exec quiet_trace (run AsObject 0 0))) \<and>
   status (state_of (step 2 (Answer 2 (Failed ''busy'')) client_gone)) = None \<and>
   timers (state_of (step 2 (Answer 2 (Failed ''busy'')) client_gone)) = timers client_gone \<and>
   pending (state_of (step 5010 (Fire 3) (state_of (exec client_left (run AsArray 0 0))))) =
     [(1, PmVersion 0), (4, CpuUsage 5000)] \<and>
   status (state_of (step 3 (Connection SYS 1) (state_of (step 2 (Answer 2 (Failed ''busy'')) client_gone))))
     = Some ''R'' \<and>
   interval (state_of (step 2 (Answer 2 (Failed ''busy'')) client_gone)) = 5000 \<and>
   noClient (state_of (exec client_left (run AsArray 0 0)))"
proof -
  let ?stopped = "state_of (step 2 (Answer 2 (Failed ''busy'')) client_gone)"
  let ?left = "state_of (exec client_left (run AsArray 0 0))"
  have quiet: "list_all (\<lambda>p. \<not> is_sys_connection (snd p)) quiet_trace"
    by code_simp
  have gone: "map_of (pending client_gone) 2 = Some (CpuUsage 5000) \<and> fits (CpuUsage 5000) (Failed ''busy'')"
    by code_simp
  have flag: "noClient client_gone"
    by code_simp
  have armed: "find (\<lambda>t. t_id t = 3) (timers ?left) =
      Some \<lparr>t_id = 3, due = 5010, every = None, act = NextTick 5000\<rparr> \<and> (5010 :: nat) \<le> 5010"
    by code_simp
  have before: "pending ?left = [(1, PmVersion 0)] \<and> next_id ?left = 4"
    by code_simp
  have stopped: "status ?stopped \<noteq> Some ''R'' \<and> \<not> connected SYS 1 ?stopped"
    by code_simp
  have opt: "opt_refresh ?stopped = 0"
    by code_simp
  have empty: "sockets ?left SYS = []"
    by code_simp
  from heartbeat_by_flag [of quiet_trace AsObject 0 0 client_gone 2 5000 "Failed ''busy''" 2
      3 ?left 5010 5000 5010 ?stopped 1 3 client_left 0 0]
    quiet gone flag armed before stopped opt empty
  show ?thesis
    by (simp add: Let_def)
qed

text \<open>
  C8 as stated fails, on either transport: the only system client connects, the first
  tick is answered and arms its timeout, and the client leaves. When the timeout fires,
  no socket is connected to the system namespace, and yet the status is \<open>R\<close> and a new
  system-stat call is in flight.
\<close>

theorem tick_without_client:
  "(case exec trailing_tick (run AsObject 0 0) of
      Done s \<Rightarrow>
        sockets s SYS = [] \<and> status s = Some ''R'' \<and>
        pending s = [(1, PmVersion 0), (4, CpuUsage 5000)]
    | Threw e s \<Rightarrow> False) \<and>
   (case exec trailing_tick (run AsArray 0 0) of
      Done s \<Rightarrow>
        sockets s SYS = [] \<and> status s = Some ''R'' \<and>
        pending s = [(1, PmVersion 0), (4, CpuUsage 5000)]
    | Threw e s \<Rightarrow> False)"
  by code_simp

section \<open>Properties of _throttleRefresh\<close>

text \<open>Every handler keeps the timers well formed.\<close>

lemma throttle_ok_fields:
  "timers s' = timers s \<Longrightarrow> next_id s' = next_id s \<Longrightarrow> throttle s' = throttle s \<Longrightarrow>
     throttle_ok s' = throttle_ok s"
  by (simp add: throttle_ok_def)

lemma throttle_ok_add_timer:
  "a \<noteq> RefreshProcs \<Longrightarrow> throttle_ok s \<Longrightarrow> throttle_ok (add_timer a d rep now s)"
  by (fastforce simp: throttle_ok_def add_timer_def)

lemma throttle_ok_clear_timer: "throttle_ok s \<Longrightarrow> throttle_ok (clear_timer i s)"
  by (auto simp: throttle_ok_def clear_timer_def distinct_map_filter)

lemma throttle_ok_issue: "throttle_ok s \<Longrightarrow> throttle_ok (issue q s)"
  by (fastforce simp: throttle_ok_def issue_def)

lemma throttle_ok_settle: "throttle_ok (settle i s) = throttle_ok s"
  by (simp add: throttle_ok_def settle_def)

lemma throttle_ok_broadcast: "throttle_ok (broadcast ev dat n s) = throttle_ok s"
  by (simp add: throttle_ok_def broadcast_def Let_def)

lemma throttle_ok_throttleRefresh: "throttle_ok s \<Longrightarrow> throttle_ok (throttleRefresh now s)"
proof -
  assume inv: "throttle_ok s"
  define s1 where "s1 = (case throttle s of Some t \<Rightarrow> clear_timer t s | None \<Rightarrow> s)"
  from inv have ok1: "throttle_ok s1"
    by (simp add: s1_def throttle_ok_clear_timer split: option.splits)
  from inv have none: "\<forall>t \<in> set (timers s1). act t \<noteq> RefreshProcs"
    by (auto simp: s1_def throttle_ok_def clear_timer_def split: option.splits)
  have "throttleRefresh now s = (add_timer RefreshProcs 500 None now s1)\<lparr>throttle := Some (next_id s1)\<rparr>"
    by (simp add: throttleRefresh_def s1_def Let_def)
  with ok1 none show ?thesis
    by (fastforce simp: throttle_ok_def add_timer_def)
qed

lemma throttle_ok_refreshProcs: "throttle_ok s \<Longrightarrow> throttle_ok (refreshProcs now s)"
  by (fastforce simp: refreshProcs_def throttle_ok_def issue_def)

lemma throttle_ok_list_done: "throttle_ok (list_done r s) = throttle_ok s"
  by (simp add: list_done_def Let_def throttle_ok_def broadcast_def split: reply.splits)

lemma throttle_ok_nextTick: "throttle_ok s \<Longrightarrow> throttle_ok (nextTick tick c s)"
  by (fastforce simp: nextTick_def throttle_ok_def issue_def)

lemma throttle_ok_stat_done: "throttle_ok s \<Longrightarrow> throttle_ok (stat_done now tick r s)"
  by (cases r)
     (fastforce simp: stat_done_def after_stat_def throttle_ok_def broadcast_def add_timer_def Let_def)+

lemma throttle_ok_sendProcs: "throttle_ok (sendProcs i s) = throttle_ok s"
  by (simp add: sendProcs_def throttle_ok_def split: option.splits)

lemma throttle_ok_connectSysSock: "throttle_ok s \<Longrightarrow> throttle_ok (connectSysSock i s)"
  by (fastforce simp: connectSysSock_def Let_def sendProcs_def issue_def broadcast_def nextTick_def
        throttle_ok_def split: option.splits)

lemma throttle_ok_action_done: "throttle_ok s \<Longrightarrow> throttle_ok (action_done now i ident r s)"
  by (cases r) (simp_all add: action_done_def throttle_ok_throttleRefresh, simp add: throttle_ok_def)

lemma throttle_ok_version_done: "throttle_ok (version_done i r s) = throttle_ok s"
  by (simp add: version_done_def Let_def throttle_ok_def)

lemma throttle_ok_update_socket: "throttle_ok (update_socket n i f s) = throttle_ok s"
  by (simp add: update_socket_def throttle_ok_def)

lemma throttle_ok_startTailProcess: "throttle_ok s \<Longrightarrow> throttle_ok (startTailProcess i pm_id k s)"
  by (simp add: startTailProcess_def Let_def throttle_ok_update_socket throttle_ok_issue)

lemma throttle_ok_tail_opened: "throttle_ok (tail_opened pm_id k r s) = throttle_ok s"
  by (simp add: tail_opened_def emitError_log_def throttle_ok_broadcast split: reply.splits option.splits)
     (simp add: throttle_ok_def)

lemma throttle_ok_killTail: "throttle_ok (killTail k s) = throttle_ok s"
  by (simp add: killTail_def throttle_ok_def split: option.splits)

lemma throttle_ok_fold_killTail:
  "throttle_ok (fold (\<lambda>k s'. if K k then s' else killTail k s') ks s) = throttle_ok s"
  by (induction ks arbitrary: s) (simp_all add: throttle_ok_killTail)

lemma throttle_ok_killTailProcess: "throttle_ok (killTailProcess pm_id s) = throttle_ok s"
  by (simp add: killTailProcess_def Let_def throttle_ok_killTail throttle_ok_fold_killTail)

lemma throttle_ok_drop_usage: "throttle_ok s \<Longrightarrow> throttle_ok (drop_usage k s)"
proof (cases "map_of (usages s) k")
  case None
  then show "throttle_ok s \<Longrightarrow> ?thesis" by (simp add: drop_usage_def)
next
  case (Some t)
  assume "throttle_ok s"
  then have "throttle_ok (clear_timer t s)" by (rule throttle_ok_clear_timer)
  with Some show ?thesis by (simp add: drop_usage_def throttle_ok_def)
qed

lemma throttle_ok_fold_drop_usage:
  "throttle_ok s \<Longrightarrow> throttle_ok (fold (\<lambda>k s'. if K k then s' else drop_usage k s') ks s)"
  by (induction ks arbitrary: s) (simp_all add: throttle_ok_drop_usage)

lemma throttle_ok_killObserver: "throttle_ok s \<Longrightarrow> throttle_ok (state_of (killObserver s))"
  by (simp add: killObserver_def throttle_ok_fold_drop_usage split: sum.splits)

lemma throttle_ok_runObserver: "throttle_ok s \<Longrightarrow> throttle_ok (state_of (runObserver now i pid s))"
proof -
  assume inv: "throttle_ok s"
  define s1 where "s1 = update_socket PROC i (\<lambda>k. k\<lparr>tag_pid := pid\<rparr>) s"
  from inv have ok1: "throttle_ok s1" by (simp add: s1_def throttle_ok_update_socket)
  then have "throttle_ok (add_timer (RunTimer pid) 3000 (Some 3000) now s1)"
    by (simp add: throttle_ok_add_timer)
  then have "throttle_ok (issue (PidUsage pid)
      ((add_timer (RunTimer pid) 3000 (Some 3000) now s1)\<lparr>usages := x\<rparr>))" for x
    by (fastforce simp: throttle_ok_def issue_def)
  with ok1 show ?thesis
    by (simp add: runObserver_def Let_def s1_def split: sum.splits)
qed

lemma throttle_ok_usage_done: "throttle_ok s \<Longrightarrow> throttle_ok (state_of (usage_done now pid r s))"
  by (simp add: usage_done_def throttle_ok_broadcast split: reply.splits)

lemma t_id_touch: "t_id \<circ> (\<lambda>u. if t_id u = j then u\<lparr>due := x\<rparr> else u) = t_id"
  by (auto simp: fun_eq_iff)

lemma throttle_ok_rearm: "throttle_ok s \<Longrightarrow> throttle_ok (rearm now t s)"
proof (cases "every t")
  case None
  then show "throttle_ok s \<Longrightarrow> ?thesis" by (simp add: rearm_def throttle_ok_clear_timer)
next
  case (Some d)
  assume inv: "throttle_ok s"
  with Some show ?thesis
    by (auto simp: rearm_def throttle_ok_def t_id_touch)
qed

lemma throttle_ok_expire_other:
  "a \<noteq> RefreshProcs \<Longrightarrow> throttle_ok s \<Longrightarrow> throttle_ok (expire now a s)"
  by (cases a) (simp_all add: expire_def throttle_ok_nextTick throttle_ok_issue)

lemma throttle_ok_fire: "throttle_ok s \<Longrightarrow> throttle_ok (fire now i s)"
proof (cases "find (\<lambda>t. t_id t = i) (timers s)")
  case None
  then show "throttle_ok s \<Longrightarrow> ?thesis" by (simp add: fire_def)
next
  case (Some t)
  assume inv: "throttle_ok s"
  from Some have t: "t \<in> set (timers s)" "t_id t = i" by (auto dest: find_Some_set)
  show ?thesis
  proof (cases "act t = RefreshProcs")
    case False
    with inv Some show ?thesis
      by (simp add: fire_def throttle_ok_rearm throttle_ok_expire_other)
  next
    case True
    with inv t have th: "throttle s = Some i" "every t = None" by (auto simp: throttle_ok_def)
    from inv th(1) have gone: "\<forall>u \<in> set (timers (clear_timer i s)). act u \<noteq> RefreshProcs"
      by (auto simp: throttle_ok_def clear_timer_def)
    from inv have "throttle_ok (clear_timer i s)" by (rule throttle_ok_clear_timer)
    with gone have "throttle_ok (refreshProcs now ((clear_timer i s)\<lparr>throttle := None\<rparr>))"
      by (fastforce simp: throttle_ok_def refreshProcs_def issue_def)
    with Some True th t inv show ?thesis
      by (simp add: fire_def rearm_def expire_def)
  qed
qed

lemma throttle_ok_answer: "throttle_ok s \<Longrightarrow> throttle_ok (state_of (answer now i r s))"
proof (cases "map_of (pending s) i")
  case None
  then show "throttle_ok s \<Longrightarrow> ?thesis" by (simp add: answer_def)
next
  case (Some q)
  assume inv: "throttle_ok s"
  then have "throttle_ok (settle i s)" by (simp add: throttle_ok_settle)
  with Some inv show ?thesis
    by (cases q)
       (simp_all add: answer_def throttle_ok_stat_done throttle_ok_list_done
          throttle_ok_tail_opened throttle_ok_usage_done throttle_ok_version_done
          throttle_ok_action_done)
qed

lemma throttle_ok_join: "throttle_ok (join n i s) = throttle_ok s"
  by (simp add: join_def throttle_ok_def)

lemma throttle_ok_leave: "throttle_ok (leave n i s) = throttle_ok s"
  by (simp add: leave_def throttle_ok_def)

lemma throttle_ok_disconnectSysSock: "throttle_ok (disconnectSysSock s) = throttle_ok s"
  by (simp add: disconnectSysSock_def throttle_ok_def)

lemma throttle_ok_step: "throttle_ok s \<Longrightarrow> throttle_ok (state_of (step now e s))"
proof (cases e)
  case (Connection n i)
  then show "throttle_ok s \<Longrightarrow> ?thesis"
    by (cases n) (simp_all add: throttle_ok_join throttle_ok_connectSysSock)
next
  case (Disconnect n i reason)
  then show "throttle_ok s \<Longrightarrow> ?thesis"
    by (cases n)
       (simp_all add: throttle_ok_leave throttle_ok_disconnectSysSock
          throttle_ok_killTailProcess throttle_ok_killObserver)
qed (simp_all add: throttle_ok_issue throttle_ok_sendProcs throttle_ok_startTailProcess
       throttle_ok_killTailProcess throttle_ok_runObserver throttle_ok_throttleRefresh
       throttle_ok_fire throttle_ok_answer)

lemma throttle_ok_exec: "throttle_ok s \<Longrightarrow> throttle_ok (state_of (exec es s))"
proof (induction es arbitrary: s)
  case Nil
  then show ?case by simp
next
  case (Cons p es)
  obtain t e where p: "p = (t, e)" by (cases p)
  from Cons.prems have "throttle_ok (state_of (step t e s))" by (rule throttle_ok_step)
  with Cons.IH p show ?case by (cases "step t e s") simp_all
qed

lemma throttle_ok_run: "throttle_ok (run k r now)"
  by (simp add: run_def throttle_ok_def throttleRefresh_def add_timer_def Let_def)

text \<open>The timeout of the last call of the trigger through a burst and after it.\<close>

lemma find_append_fresh:
  "\<forall>t \<in> set xs. \<not> P t \<Longrightarrow> find P (xs @ ys) = find P ys"
  by (induction xs) auto

lemma find_filter_other:
  "i \<noteq> j \<Longrightarrow> find (\<lambda>t. t_id t = i) (filter (\<lambda>t. t_id t \<noteq> j) xs) = find (\<lambda>t. t_id t = i) xs"
  by (induction xs) auto

lemma find_touch_other:
  "i \<noteq> j \<Longrightarrow>
     find (\<lambda>t. t_id t = i) (map (\<lambda>u. if t_id u = j then u\<lparr>due := x\<rparr> else u) xs) =
     find (\<lambda>t. t_id t = i) xs"
  by (induction xs) auto

lemma armed_throttleRefresh:
  assumes "throttle_ok s"
  shows "armed (next_id s) now (throttleRefresh now s) \<and>
         refreshed (throttleRefresh now s) = refreshed s"
proof -
  define s1 where "s1 = (case throttle s of Some t \<Rightarrow> clear_timer t s | None \<Rightarrow> s)"
  have eq: "throttleRefresh now s = (add_timer RefreshProcs 500 None now s1)\<lparr>throttle := Some (next_id s1)\<rparr>"
    by (simp add: throttleRefresh_def s1_def Let_def)
  have n: "next_id s1 = next_id s" and r: "refreshed s1 = refreshed s"
    by (simp_all add: s1_def clear_timer_def split: option.splits)
  from assms have "\<forall>t \<in> set (timers s1). \<not> t_id t = next_id s"
    by (auto simp: s1_def throttle_ok_def clear_timer_def split: option.splits)
  then have "find (\<lambda>t. t_id t = next_id s) (timers s1 @ [\<lparr>t_id = next_id s, due = now + 500, every = None, act = RefreshProcs\<rparr>])
      = Some \<lparr>t_id = next_id s, due = now + 500, every = None, act = RefreshProcs\<rparr>"
    by (simp add: find_append_fresh)
  with eq n r show ?thesis
    by (simp add: armed_def add_timer_def)
qed

lemma fire_other:
  assumes ok: "throttle_ok s" and a: "armed i L s" and ne: "j \<noteq> i"
  shows "armed i L (fire now j s) \<and> refreshed (fire now j s) = refreshed s"
proof (cases "find (\<lambda>t. t_id t = j) (timers s)")
  case None
  with a show ?thesis by (simp add: fire_def)
next
  case (Some u)
  then have u: "u \<in> set (timers s)" "t_id u = j" by (auto dest: find_Some_set)
  with ok a ne have nr: "act u \<noteq> RefreshProcs" by (auto simp: throttle_ok_def armed_def)
  from a ne u have r1: "armed i L (rearm now u s) \<and> refreshed (rearm now u s) = refreshed s"
    by (auto simp: rearm_def armed_def clear_timer_def find_filter_other find_touch_other
        split: option.splits)
  have "armed i L (expire now (act u) s') = armed i L s' \<and>
        refreshed (expire now (act u) s') = refreshed s'" for s'
    using nr by (cases "act u") (simp_all add: expire_def armed_def nextTick_def issue_def)
  with r1 Some a show ?thesis by (simp add: fire_def)
qed

lemma fire_early:
  assumes ok: "throttle_ok s" and a: "armed i L s" and early: "now < L + 500"
  shows "armed i L (fire now j s) \<and> refreshed (fire now j s) = refreshed s"
proof (cases "j = i")
  case True
  with a early show ?thesis by (simp add: fire_def armed_def)
next
  case False
  with ok a show ?thesis by (simp add: fire_other)
qed

lemma fire_due:
  assumes a: "armed i L s" and due: "L + 500 \<le> now"
  shows "refreshed (fire now i s) = refreshed s @ [now] \<and> throttle (fire now i s) = None"
  using assms
  by (simp add: fire_def armed_def rearm_def expire_def refreshProcs_def issue_def clear_timer_def)

lemma fire_idle:
  assumes ok: "throttle_ok s" and none: "throttle s = None"
  shows "refreshed (fire now j s) = refreshed s \<and> throttle (fire now j s) = None"
proof (cases "find (\<lambda>t. t_id t = j) (timers s)")
  case None
  with none show ?thesis by (simp add: fire_def)
next
  case (Some u)
  then have "u \<in> set (timers s)" by (auto dest: find_Some_set)
  with ok none have nr: "act u \<noteq> RefreshProcs" by (auto simp: throttle_ok_def)
  have r1: "refreshed (rearm now u s) = refreshed s \<and> throttle (rearm now u s) = throttle s"
    by (simp add: rearm_def clear_timer_def split: option.splits)
  have "refreshed (expire now (act u) s') = refreshed s' \<and>
        throttle (expire now (act u) s') = throttle s'" for s'
    using nr by (cases "act u") (simp_all add: expire_def nextTick_def issue_def)
  with r1 Some none show ?thesis by (simp add: fire_def)
qed

lemma burst_arms:
  "throttle_ok s \<Longrightarrow> armed i L s \<Longrightarrow> burst L b \<Longrightarrow>
     \<exists>s' i'. exec b s = Done s' \<and> throttle_ok s' \<and> armed i' (last_trigger L b) s' \<and>
             refreshed s' = refreshed s"
proof (induction b arbitrary: s i L)
  case Nil
  then show ?case by auto
next
  case (Cons p b)
  obtain t e where p: "p = (t, e)" by (cases p)
  from Cons.prems(3) p have t: "t < L + 500" by simp
  from Cons.prems(3) p consider "e = Pm2Event" "burst t b" | j where "e = Fire j" "burst L b"
    by (cases e) simp_all
  then show ?case
  proof cases
    case 1
    let ?s = "throttleRefresh t s"
    from Cons.prems(1) have ok: "throttle_ok ?s" by (rule throttle_ok_throttleRefresh)
    from Cons.prems(1) have ar: "armed (next_id s) t ?s" and re: "refreshed ?s = refreshed s"
      by (simp_all add: armed_throttleRefresh)
    from Cons.IH [OF ok ar 1(2)] re p 1(1) show ?thesis by simp
  next
    case 2
    let ?s = "fire t j s"
    from Cons.prems(1) have ok: "throttle_ok ?s" by (rule throttle_ok_fire)
    from Cons.prems(1,2) t have ar: "armed i L ?s" and re: "refreshed ?s = refreshed s"
      by (simp_all add: fire_early)
    from Cons.IH [OF ok ar 2(2)] re p 2(1) show ?thesis by simp
  qed
qed

lemma fires_idle:
  "throttle_ok s \<Longrightarrow> throttle s = None \<Longrightarrow> list_all (\<lambda>p. is_fire (snd p)) a \<Longrightarrow>
     refreshed (state_of (exec a s)) = refreshed s"
proof (induction a arbitrary: s)
  case Nil
  then show ?case by simp
next
  case (Cons p a)
  obtain t e where p: "p = (t, e)" by (cases p)
  with Cons.prems(3) obtain j where e: "e = Fire j" by (cases e) simp_all
  let ?s = "fire t j s"
  from Cons.prems(1) have ok: "throttle_ok ?s" by (rule throttle_ok_fire)
  from Cons.prems(1,2) have th: "throttle ?s = None" and re: "refreshed ?s = refreshed s"
    by (simp_all add: fire_idle)
  from Cons.IH [OF ok th] Cons.prems(3) re p e show ?case by simp
qed

lemma fires_armed:
  "throttle_ok s \<Longrightarrow> armed i L s \<Longrightarrow> list_all (\<lambda>p. is_fire (snd p)) a \<Longrightarrow>
     refreshed (state_of (exec a s)) =
       refreshed s @ map fst (take 1 (filter (\<lambda>p. snd p = Fire i \<and> L + 500 \<le> fst p) a))"
proof (induction a arbitrary: s)
  case Nil
  then show ?case by simp
next
  case (Cons p a)
  obtain t e where p: "p = (t, e)" by (cases p)
  with Cons.prems(3) obtain j where e: "e = Fire j" by (cases e) simp_all
  from Cons.prems(3) have rest: "list_all (\<lambda>p. is_fire (snd p)) a" by simp
  let ?s = "fire t j s"
  from Cons.prems(1) have ok: "throttle_ok ?s" by (rule throttle_ok_fire)
  show ?case
  proof (cases "j = i \<and> L + 500 \<le> t")
    case True
    with Cons.prems(2) have "refreshed ?s = refreshed s @ [t]" "throttle ?s = None"
      by (simp_all add: fire_due)
    with fires_idle [OF ok _ rest] True p e show ?thesis by simp
  next
    case False
    with Cons.prems(1,2) have ar: "armed i L ?s" and re: "refreshed ?s = refreshed s"
      by (auto simp: fire_other fire_early)
    from Cons.IH [OF ok ar rest] re False p e show ?thesis by auto
  qed
qed

text \<open>
  C4. In any state the monitor reaches from \<open>run\<close>, on either transport, take a
  burst of calls of the trigger, the first at \<open>t1\<close> and each further one less than
  500 ms after the one before, with timers firing in between, and let \<open>L\<close> be the
  time of the last call.
  During the burst _refreshProcs is not invoked, and the burst leaves one timeout armed.
  Whatever timers fire afterwards, and whenever, _refreshProcs is invoked at most once,
  at a time no earlier than \<open>L + 500\<close>, and exactly once when the runtime fires that
  timeout at or after \<open>L + 500\<close>.
\<close>

theorem throttle_burst:
  assumes "burst t1 b" and "list_all (\<lambda>p. is_fire (snd p)) a"
  shows "let s0 = state_of (exec pre (run k r t0));
             s1 = state_of (exec ((t1, Pm2Event) # b) s0);
             s2 = state_of (exec a s1);
             L = last_trigger t1 b
         in exec ((t1, Pm2Event) # b) s0 = Done s1 \<and> refreshed s1 = refreshed s0 \<and>
            (\<exists>i new. throttle s1 = Some i \<and> refreshed s2 = refreshed s0 @ new \<and>
               new = map fst (take 1 (filter (\<lambda>p. snd p = Fire i \<and> L + 500 \<le> fst p) a)) \<and>
               length new \<le> 1 \<and> (\<forall>t \<in> set new. L + 500 \<le> t) \<and>
               (new = [] \<longleftrightarrow> (\<forall>p \<in> set a. \<not> (snd p = Fire i \<and> L + 500 \<le> fst p))))"
proof -
  define s0 where "s0 = state_of (exec pre (run k r t0))"
  define sa where "sa = throttleRefresh t1 s0"
  have ok0: "throttle_ok s0"
    unfolding s0_def using throttle_ok_run by (rule throttle_ok_exec)
  then have oka: "throttle_ok sa"
    unfolding sa_def by (rule throttle_ok_throttleRefresh)
  from ok0 have ara: "armed (next_id s0) t1 sa" and rea: "refreshed sa = refreshed s0"
    by (simp_all add: sa_def armed_throttleRefresh)
  from burst_arms [OF oka ara assms(1)] obtain s1 i
    where s1: "exec b sa = Done s1" "throttle_ok s1" "armed i (last_trigger t1 b) s1"
      "refreshed s1 = refreshed sa"
    by blast
  define new where
    "new = map fst (take 1 (filter (\<lambda>p. snd p = Fire i \<and> last_trigger t1 b + 500 \<le> fst p) a))"
  have full: "exec ((t1, Pm2Event) # b) s0 = Done s1"
    using s1(1) by (simp add: sa_def)
  have after: "refreshed (state_of (exec a s1)) = refreshed s0 @ new"
    using fires_armed [OF s1(2,3) assms(2)] s1(4) rea by (simp add: new_def)
  have short: "length new \<le> 1"
    by (simp add: new_def)
  have "set (take 1 (filter (\<lambda>p. snd p = Fire i \<and> last_trigger t1 b + 500 \<le> fst p) a))
          \<subseteq> {p. last_trigger t1 b + 500 \<le> fst p}"
    using set_take_subset [of 1 "filter (\<lambda>p. snd p = Fire i \<and> last_trigger t1 b + 500 \<le> fst p) a"]
    by auto
  then have late: "\<forall>t \<in> set new. last_trigger t1 b + 500 \<le> t"
    by (auto simp: new_def)
  have none: "new = [] \<longleftrightarrow> (\<forall>p \<in> set a. \<not> (snd p = Fire i \<and> last_trigger t1 b + 500 \<le> fst p))"
    by (simp add: new_def filter_empty_conv)
  from s1(3) have th: "throttle s1 = Some i"
    by (simp add: armed_def)
  have st: "state_of (exec ((t1, Pm2Event) # b) s0) = s1"
    using full by simp
  have re1: "refreshed s1 = refreshed s0"
    using s1(4) rea by simp
  have "\<exists>i new. throttle s1 = Some i \<and> refreshed (state_of (exec a s1)) = refreshed s0 @ new \<and>
          new = map fst (take 1 (filter (\<lambda>p. snd p = Fire i \<and> last_trigger t1 b + 500 \<le> fst p) a)) \<and>
          length new \<le> 1 \<and> (\<forall>t \<in> set new. last_trigger t1 b + 500 \<le> t) \<and>
          (new = [] \<longleftrightarrow> (\<forall>p \<in> set a. \<not> (snd p = Fire i \<and> last_trigger t1 b + 500 \<le> fst p)))"
  proof (intro exI conjI)
    show "throttle s1 = Some i" by (rule th)
    show "refreshed (state_of (exec a s1)) = refreshed s0 @ new" by (rule after)
    show "new = map fst (take 1 (filter (\<lambda>p. snd p = Fire i \<and> last_trigger t1 b + 500 \<le> fst p) a))"
      by (rule new_def)
    show "length new \<le> 1" by (rule short)
    show "\<forall>t \<in> set new. last_trigger t1 b + 500 \<le> t" by (rule late)
    show "new = [] \<longleftrightarrow> (\<forall>p \<in> set a. \<not> (snd p = Fire i \<and> last_trigger t1 b + 500 \<le> fst p))"
      by (rule none)
  qed
  with full re1 have concl:
    "exec ((t1, Pm2Event) # b) s0 = Done s1 \<and> refreshed s1 = refreshed s0 \<and>
       (\<exists>i new. throttle s1 = Some i \<and> refreshed (state_of (exec a s1)) = refreshed s0 @ new \<and>
          new = map fst (take 1 (filter (\<lambda>p. snd p = Fire i \<and> last_trigger t1 b + 500 \<le> fst p) a)) \<and>
          length new \<le> 1 \<and> (\<forall>t \<in> set new. last_trigger t1 b + 500 \<le> t) \<and>
          (new = [] \<longleftrightarrow> (\<forall>p \<in> set a. \<not> (snd p = Fire i \<and> last_trigger t1 b + 500 \<le> fst p))))"
    by (intro conjI)
  show ?thesis
    unfolding Let_def s0_def [symmetric] st by (rule concl)
qed

text \<open>
  The theorem on three calls at 100, 300 and 700 ms right after \<open>run\<close>: the refresh
  runs once, at 1250 ms, the first time the timeout of the last call is run at or after
  1200 ms.
\<close>

theorem throttle_burst_witness:
  "refreshed (state_of (exec after_fires
      (state_of (exec ((100, Pm2Event) # burst_events) (run AsObject 0 0))))) = [1250]"
proof -
  let ?s1 = "state_of (exec ((100, Pm2Event) # burst_events) (run AsObject 0 0))"
  have b: "burst 100 burst_events"
    by code_simp
  have a: "list_all (\<lambda>p. is_fire (snd p)) after_fires"
    by code_simp
  have three: "throttle ?s1 = Some 3"
    by code_simp
  have L: "last_trigger 100 burst_events = 700"
    by code_simp
  have none: "refreshed (run AsObject 0 0) = []"
    by code_simp
  have e0: "state_of (exec [] (run AsObject 0 0)) = run AsObject 0 0"
    by simp
  from throttle_burst [OF b a, of "[]" AsObject 0 0, unfolded Let_def e0]
  obtain i where i: "throttle ?s1 = Some i"
    and r: "refreshed (state_of (exec after_fires ?s1)) =
      refreshed (run AsObject 0 0) @
      map fst (take 1 (filter (\<lambda>p. snd p = Fire i \<and> last_trigger 100 burst_events + 500 \<le> fst p) after_fires))"
    by blast
  from i three have "i = 3" by simp
  with r L none show ?thesis
    by (simp add: after_fires_def)
qed

section \<open>The round trip of connection strings\<close>

lemma is_digit_digit_char: "d < 10 \<Longrightarrow> is_digit (digit_char d)"
  by (simp add: is_digit_def digit_char_def)

lemma show_nat_digits: "list_all is_digit (show_nat n) \<and> show_nat n \<noteq> []"
proof (induction n rule: show_nat.induct)
  case (1 n)
  show ?case
  proof (cases "n < 10")
    case True
    then show ?thesis by (simp add: show_nat.simps [of n] is_digit_digit_char)
  next
    case False
    with 1 show ?thesis
      by (simp add: show_nat.simps [of n] is_digit_digit_char)
  qed
qed

lemma read_nat_snoc: "read_nat (xs @ [c]) = 10 * read_nat xs + ((of_char c :: nat) - 48)"
  by (simp add: read_nat_def)

lemma digit_char_value: "d < 10 \<Longrightarrow> (of_char (digit_char d) :: nat) - 48 = d"
  by (simp add: digit_char_def)

lemma read_show_nat: "read_nat (show_nat n) = n"
proof (induction n rule: show_nat.induct)
  case (1 n)
  show ?case
  proof (cases "n < 10")
    case True
    then show ?thesis
      by (simp add: show_nat.simps [of n] read_nat_def digit_char_value)
  next
    case False
    with 1 show ?thesis
      by (simp add: show_nat.simps [of n] read_nat_snoc digit_char_value)
  qed
qed

lemma plain_port_show_nat: "n \<le> 65535 \<Longrightarrow> plain_port (show_nat n)"
  by (simp add: plain_port_def read_show_nat)

lemma plain_port_digits: "plain_port d \<Longrightarrow> list_all is_digit d \<and> d \<noteq> []"
  using show_nat_digits [of "read_nat d"] by (simp add: plain_port_def)

lemma index_of_None: "index_of c t = None \<longleftrightarrow> c \<notin> set t"
  by (induction t) (auto split: option.splits)

lemma last_index_of_append:
  "c \<notin> set ys \<Longrightarrow> last_index_of c (xs @ c # ys) = Some (length xs)"
  by (induction xs) (auto simp: last_index_of_None split: option.splits)

lemma host_char_plain:
  "host_char c \<Longrightarrow> c \<noteq> CHR ''@'' \<and> c \<noteq> CHR '':'' \<and> c \<noteq> CHR ''/'' \<and> c \<noteq> CHR ''?'' \<and> c \<noteq> CHR ''#''"
  by (auto simp: host_char_def is_digit_def is_lower_def)

lemma is_digit_plain: "is_digit c \<Longrightarrow> host_char c"
  by (auto simp: host_char_def)

lemma path_char_plain:
  "path_char c \<Longrightarrow> c \<noteq> CHR ''@'' \<and> c \<noteq> CHR ''?'' \<and> c \<noteq> CHR ''#'' \<and> rest_char c"
  by (auto simp: is_digit_def is_lower_def is_upper_def path_char_def rest_char_def)

lemma takeWhile_all_then:
  "\<forall>x \<in> set xs. P x \<Longrightarrow> ys = [] \<or> \<not> P (hd ys) \<Longrightarrow>
     takeWhile P (xs @ ys) = xs \<and> dropWhile P (xs @ ys) = ys"
  by (induction xs) (cases ys; auto)+

lemma split_port_plain:
  assumes "list_all is_digit D" and "D \<noteq> []"
  shows "split_port (H @ CHR '':'' # D) = (H, Some D)"
proof -
  from assms(1) have "CHR '':'' \<notin> set D"
    by (auto simp: list_all_iff is_digit_def)
  then have "last_index_of CHR '':'' (H @ CHR '':'' # D) = Some (length H)"
    by (rule last_index_of_append)
  with assms show ?thesis by (simp add: split_port_def)
qed

lemma no_special_host:
  "list_all host_char h \<Longrightarrow> CHR ''?'' \<notin> set h \<and> CHR ''@'' \<notin> set h \<and> CHR ''#'' \<notin> set h"
  by (induction h) (auto dest: host_char_plain)

lemma no_special_path:
  "list_all path_char h \<Longrightarrow>
     CHR ''?'' \<notin> set h \<and> CHR ''@'' \<notin> set h \<and> CHR ''#'' \<notin> set h \<and> list_all rest_char h"
  by (induction h) (auto dest: path_char_plain)

lemma no_special_digits:
  "list_all is_digit h \<Longrightarrow> CHR ''?'' \<notin> set h \<and> CHR ''@'' \<notin> set h \<and> CHR ''#'' \<notin> set h"
  by (induction h) (auto dest!: is_digit_plain dest: host_char_plain)

lemma no_special_proto:
  "P = ''http:'' \<or> P = ''https:'' \<Longrightarrow> CHR ''?'' \<notin> set P \<and> CHR ''@'' \<notin> set P \<and> CHR ''#'' \<notin> set P"
  by auto

text \<open>What the description of \<open>url.parse\<close> says on an address with a port.\<close>

lemma url_parse_plain:
  assumes P: "P = ''http:'' \<or> P = ''https:''"
    and H: "plain_host H"
    and D: "plain_port D"
    and T: "T = [] \<or> host_end (hd T)" "list_all rest_char T"
  shows "url_parse (P @ ''//'' @ H @ CHR '':'' # D @ T) =
     Some \<lparr>url_protocol = Some P, url_hostname = Some H, url_port = Some D,
           url_path = Some (if take 1 T = ''/'' then T else ''/'' @ T)\<rparr>"
proof -
  let ?s = "P @ ''//'' @ H @ CHR '':'' # D @ T"
  from H have Hc: "list_all host_char H" and Hne: "H \<noteq> []"
    by (simp_all add: plain_host_def)
  from D have Dd: "list_all is_digit D" and Dne: "D \<noteq> []"
    by (simp_all add: plain_port_digits)
  from P have proto: "takeWhile (\<lambda>c. c \<noteq> CHR '':'') ?s @ '':'' = P"
    by auto
  from P have rest: "drop 3 (dropWhile (\<lambda>c. c \<noteq> CHR '':'') ?s) = H @ CHR '':'' # D @ T"
    by auto
  from P have pre: "take 7 ?s = ''http://'' \<or> take 8 ?s = ''https://''"
    by auto
  have nohe: "\<forall>x \<in> set (H @ CHR '':'' # D). \<not> host_end x"
    using Hc Dd by (auto simp: list_all_iff host_end_def dest: host_char_plain is_digit_plain)
  from takeWhile_all_then [of "H @ CHR '':'' # D" "\<lambda>c. \<not> host_end c" T] nohe T(1)
  have tw: "takeWhile (\<lambda>c. \<not> host_end c) (H @ CHR '':'' # D @ T) = H @ CHR '':'' # D"
    and dw: "dropWhile (\<lambda>c. \<not> host_end c) (H @ CHR '':'' # D @ T) = T"
    by simp_all
  have sp: "split_port (H @ CHR '':'' # D) = (H, Some D)"
    by (rule split_port_plain [OF Dd Dne])
  show ?thesis
    unfolding url_parse_def Let_def proto rest tw dw sp
    using pre H D T(2) Hne by simp
qed

lemma with_http_plain:
  "P = ''http:'' \<or> P = ''https:'' \<Longrightarrow> with_http (P @ ''//'' @ r) = P @ ''//'' @ r"
  by (auto simp: with_http_def has_http_prefix_def lower_def lower_char_def)

lemma take1_slash: "take 1 p \<in> set [[], ''/''] \<Longrightarrow> p = [] \<or> hd p = CHR ''/''"
  by (cases p) auto

lemma plain_parts:
  assumes "plain e"
  shows "or_else (protocol e) ''http:'' = ''http:'' \<or> or_else (protocol e) ''http:'' = ''https:''"
    and "plain_host (or_else (hostname e) ''127.0.0.1'')"
    and "list_all path_char (or_else (path e) [])"
    and "list_all path_char (or_else (namespace e) [])"
    and "list_all path_char (or_else (authorization e) [])"
    and "take 1 (or_else (path e) []) \<in> set [[], ''/'']"
    and "take 1 (or_else (namespace e) []) \<in> set [[], ''/'']"
  using assms unfolding plain_def by simp_all

lemma plain_port_of:
  assumes "plain e"
  shows "\<exists>n. port e = JNum n \<and> plain_port (show_nat (unat n))"
proof -
  from assms have "case port e of JNum n \<Rightarrow> n \<le> 65535 | _ \<Rightarrow> False"
    unfolding plain_def by simp
  then obtain n where n: "port e = JNum n" "n \<le> 65535"
    by (cases "port e") simp_all
  from n(2) have "unat n \<le> 65535"
    by (simp add: word_le_nat_alt)
  with n(1) show ?thesis by (simp add: plain_port_show_nat)
qed

lemma toConnectionString_plain:
  assumes "plain e"
  shows "toConnectionString e =
           or_else (protocol e) ''http:'' @ ''//'' @ or_else (hostname e) ''127.0.0.1'' @
           CHR '':'' # to_str (port e) @ uri_tail e"
proof -
  note pp = plain_parts [OF assms]
  from plain_port_of [OF assms] obtain n where n: "port e = JNum n" "plain_port (show_nat (unat n))"
    by blast
  from pp(2) have hc: "list_all host_char (or_else (hostname e) ''127.0.0.1'')"
    by (simp add: plain_host_def)
  have "CHR ''?'' \<notin> set (base_uri e)"
    unfolding base_uri_def
    using no_special_proto [OF pp(1)] no_special_host [OF hc] no_special_path [OF pp(3)]
      no_special_path [OF pp(4)] no_special_digits [of "show_nat (unat n)"]
      plain_port_digits [OF n(2)] n(1)
    by simp
  then have "index_of CHR ''?'' (base_uri e) = None"
    by (simp add: index_of_None)
  then show ?thesis
    by (simp add: toConnectionString_def Let_def uri_tail_def base_uri_def)
qed

lemma uri_tail_plain:
  assumes "plain e"
  shows "(uri_tail e = [] \<or> host_end (hd (uri_tail e))) \<and> list_all rest_char (uri_tail e) \<and>
         CHR ''@'' \<notin> set (uri_tail e)"
proof -
  note pp = plain_parts [OF assms]
  from pp(6) have p: "or_else (path e) [] = [] \<or> hd (or_else (path e) []) = CHR ''/''"
    by (rule take1_slash)
  from pp(7) have q: "or_else (namespace e) [] = [] \<or> hd (or_else (namespace e) []) = CHR ''/''"
    by (rule take1_slash)
  from p q have first: "uri_tail e = [] \<or> host_end (hd (uri_tail e))"
    by (auto simp: uri_tail_def host_end_def hd_append)
  have "list_all rest_char ''?auth=''"
    by (simp add: rest_char_def path_char_def is_lower_def is_digit_def is_upper_def)
  then have "list_all rest_char (uri_tail e) \<and> CHR ''@'' \<notin> set (uri_tail e)"
    unfolding uri_tail_def
    using no_special_path [OF pp(3)] no_special_path [OF pp(4)] no_special_path [OF pp(5)]
    by simp
  with first show ?thesis by simp
qed

lemma trimLeft_path:
  "trimLeft (Some (if take 1 T = ''/'' then T else ''/'' @ T)) = dropWhile (\<lambda>c. c = CHR ''/'') T"
  by (simp add: trimLeft_def)

text \<open>The decoding of an address with a port by a parser that agrees with the description.\<close>

lemma decode_plain_address:
  assumes ag: "agrees parse"
    and P: "P = ''http:'' \<or> P = ''https:''"
    and H: "plain_host H"
    and D: "plain_port D"
    and T: "T = [] \<or> host_end (hd T)" "list_all rest_char T" "CHR ''@'' \<notin> set T"
  shows "parseConnectionString parse (P @ ''//'' @ H @ CHR '':'' # D @ T) =
     Inr \<lparr>protocol = Some P, hostname = Some H, port = JStr D,
          path = Some (dropWhile (\<lambda>c. c = CHR ''/'') T), namespace = None,
          authorization = Some []\<rparr>"
proof -
  let ?s = "P @ ''//'' @ H @ CHR '':'' # D @ T"
  from H have Hc: "list_all host_char H" by (simp add: plain_host_def)
  from D have Dd: "list_all is_digit D" by (simp add: plain_port_digits)
  have noat: "CHR ''@'' \<notin> set ?s"
    using no_special_proto [OF P] no_special_host [OF Hc] no_special_digits [OF Dd] T(3)
    by simp
  then have sa: "split_auth ?s = (default_connection, ?s)"
    using last_index_of_None [of "CHR ''@''" ?s] by (simp add: split_auth_def)
  have wh: "with_http ?s = ?s"
    by (rule with_http_plain [OF P])
  from ag url_parse_plain [OF P H D T(1,2)]
  have up: "parse ?s =
     Inr \<lparr>url_protocol = Some P, url_hostname = Some H, url_port = Some D,
          url_path = Some (if take 1 T = ''/'' then T else ''/'' @ T)\<rparr>"
    unfolding agrees_def by blast
  show ?thesis
    apply (subst parse_fields)
    apply (simp only: sa fst_conv snd_conv wh)
    apply (simp only: up sum.case)
    apply (simp only: url.select_convs option.case trimLeft_path)
    apply (simp add: default_connection_def)
    done
qed

text \<open>
  C1, as the code has it. Let \<open>url.parse\<close> be any parser that agrees with the
  description of plain addresses. For every plain endpoint \<open>e\<close>, decoding the encoded
  string returns an endpoint with the hostname of \<open>e\<close> (the loopback address when
  \<open>e\<close> has none), the port of \<open>e\<close> as a decimal string and the protocol of \<open>e\<close>
  (\<open>http:\<close> when it has none). The path of the result is the path of \<open>e\<close> followed
  by its namespace and by \<open>?auth=\<close> and its authorization, without the leading
  slashes; the result has no namespace and its authorization is empty.
\<close>

theorem decode_encode_plain:
  assumes "agrees parse" and "plain e"
  shows "parseConnectionString parse (toConnectionString e) =
     Inr \<lparr>protocol = Some (or_else (protocol e) ''http:''),
          hostname = Some (or_else (hostname e) ''127.0.0.1''),
          port = JStr (to_str (port e)),
          path = Some (dropWhile (\<lambda>c. c = CHR ''/'') (uri_tail e)),
          namespace = None, authorization = Some []\<rparr>"
proof -
  note pp = plain_parts [OF assms(2)]
  from plain_port_of [OF assms(2)] have D: "plain_port (to_str (port e))"
    by auto
  note T = uri_tail_plain [OF assms(2)]
  from T have T1: "uri_tail e = [] \<or> host_end (hd (uri_tail e))"
    and T2: "list_all rest_char (uri_tail e)" and T3: "CHR ''@'' \<notin> set (uri_tail e)"
    by simp_all
  show ?thesis
    unfolding toConnectionString_plain [OF assms(2)]
    by (rule decode_plain_address [OF assms(1) pp(1) pp(2) D T1 T2 T3])
qed

lemma agrees_plain_parse: "agrees plain_parse"
  by (simp add: agrees_def plain_parse_def)

lemma show_nat_8088: "show_nat 8088 = ''8088''"
proof -
  have "digit_char 0 = CHR ''0''" "digit_char 8 = CHR ''8''"
    by code_simp+
  then show ?thesis
    by (simp add: show_nat.simps)
qed

lemma port_sys_endpoint: "to_str (port sys_endpoint) = ''8088''"
  by (simp add: sys_endpoint_def show_nat_8088)

lemma plain_sys_endpoint: "plain sys_endpoint"
proof -
  have "plain_host ''example.com''" "list_all path_char ''/sys''" "list_all path_char ''secret''"
    by code_simp+
  then show ?thesis
    by (simp add: plain_def sys_endpoint_def or_else_def)
qed

lemma tail_sys_endpoint: "uri_tail sys_endpoint = ''/sys?auth=secret''"
  by (simp add: uri_tail_def sys_endpoint_def or_else_def)

text \<open>
  The theorem at the endpoint \<open>example.com:8088\<close> with the namespace \<open>/sys\<close> and the
  token \<open>secret\<close>, whose encoding is \<open>http://example.com:8088/sys?auth=secret\<close>, and
  at the parser that throws outside the plain addresses.
\<close>

theorem decode_encode_plain_witness:
  "parseConnectionString plain_parse (toConnectionString sys_endpoint) =
     Inr \<lparr>protocol = Some ''http:'', hostname = Some ''example.com'', port = JStr ''8088'',
          path = Some ''sys?auth=secret'', namespace = None, authorization = Some []\<rparr>"
  using decode_encode_plain [OF agrees_plain_parse plain_sys_endpoint]
  by (simp add: port_sys_endpoint tail_sys_endpoint) (simp add: sys_endpoint_def or_else_def)

lemma encode_sys_endpoint:
  "toConnectionString sys_endpoint = ''http://example.com:8088/sys?auth=secret''"
  by (simp add: toConnectionString_def base_uri_def sys_endpoint_def or_else_def
      show_nat_8088 Let_def)

lemma plain_port_8088: "plain_port ''8088''"
  using plain_port_show_nat [of 8088] by (simp add: show_nat_8088)

text \<open>
  C1 as stated fails at that endpoint: the decoded authorization is empty, not
  \<open>secret\<close>, and the decoded namespace is absent, not \<open>/sys\<close>.
\<close>

theorem decode_encode_counterexample:
  "parseConnectionString plain_parse (toConnectionString sys_endpoint) = Inr sys_decoded \<and>
   authorization sys_decoded \<noteq> authorization sys_endpoint \<and>
   namespace sys_decoded \<noteq> namespace sys_endpoint"
proof -
  have h: "plain_host ''example.com''"
    by code_simp
  have t: "list_all rest_char ''/sys?auth=secret''" "CHR ''@'' \<notin> set ''/sys?auth=secret''"
    by code_simp+
  have "parseConnectionString plain_parse (''http:'' @ ''//'' @ ''example.com'' @ CHR '':'' # ''8088'' @ ''/sys?auth=secret'') =
     Inr \<lparr>protocol = Some ''http:'', hostname = Some ''example.com'', port = JStr ''8088'',
          path = Some (dropWhile (\<lambda>c. c = CHR ''/'') ''/sys?auth=secret''), namespace = None,
          authorization = Some []\<rparr>"
    by (rule decode_plain_address [OF agrees_plain_parse _ h plain_port_8088 _ t])
       (simp_all add: host_end_def)
  then have "parseConnectionString plain_parse (toConnectionString sys_endpoint) = Inr sys_decoded"
    by (simp add: encode_sys_endpoint sys_decoded_def)
  then show ?thesis
    by (simp add: sys_decoded_def sys_endpoint_def)
qed


end
